theory Spec2Isabelle
  imports Complex_Main
begin

section \<open>JavaScript values\<close>

text \<open>
  The values the sitemap code handles. A JavaScript number is a double; the model keeps
  the exact rational value of a finite number and does not round it. Rounding does not
  change which numbers are \<open>NaN\<close>; the two zeros of a double are both \<open>Fin 0\<close>. A
  decimal literal beyond the range of a double stays finite here where the code has
  \<open>Infinity\<close>, and one below the least positive double stays other than zero where
  the code has \<open>0\<close>.
\<close>

datatype jsnum = NaN | Fin rat | PosInf | NegInf

text \<open>A \<open>Date\<close> object holds a time value: milliseconds since the epoch, or \<open>NaN\<close>.\<close>

datatype jsdate = InvalidDate | DateMs int

text \<open>
  \<open>JObj s\<close> is any other object (plain object, array, function result), carrying the
  string its string conversion gives.
\<close>

datatype jsval =
    JUndefined
  | JNull
  | JBool bool
  | JNum jsnum
  | JStr string
  | JDate jsdate
  | JObj string

text \<open>What the code throws, and what the file system reports.\<close>

datatype error =
    InvalidSitemapContents
  | InvalidLastModifiedType
  | InvalidDateFormat string
  | InvalidPriority
  | TypeError
  | ReadDirError
  | StatError
  | FileReadError

fun truthy :: "jsval \<Rightarrow> bool" where
  "truthy JUndefined = False"
| "truthy JNull = False"
| "truthy (JBool b) = b"
| "truthy (JNum n) = (n \<noteq> NaN \<and> n \<noteq> Fin 0)"
| "truthy (JStr s) = (s \<noteq> [])"
| "truthy (JDate d) = True"
| "truthy (JObj s) = True"

fun isNaN :: "jsnum \<Rightarrow> bool" where
  "isNaN NaN = True"
| "isNaN _ = False"

text \<open>
  A node of the tree that \<open>htmlparser2\<close> builds: its type (\<open>tag\<close>, \<open>text\<close>,
  \<open>directive\<close>, \<open>comment\<close>, \<open>cdata\<close>), its name when it has one, its text (of a
  \<open>text\<close> node) and its children.
\<close>

datatype node = Node (ntype: string) (nname: "string option") (ndata: string)
  (nchildren: "node list")

text \<open>
  The builtins of the host whose output is not computed here: the decimal form of a
  number that is not an integer, the local-time text of a \<open>Date\<close>, the offset of local
  time from UTC in milliseconds (as a function of the local time value), and the
  tree builder \<open>htmlparser.parseDOM\<close> in XML mode.
\<close>

record host =
  numToString :: "rat \<Rightarrow> string"
  dateToString :: "jsdate \<Rightarrow> string"
  localOffset :: "int \<Rightarrow> int"
  parseDOM :: "string \<Rightarrow> node list"

subsection \<open>Decimal digits\<close>

definition isDigit :: "char \<Rightarrow> bool" where
  "isDigit c \<longleftrightarrow> c \<in> set ''0123456789''"

definition digitVal :: "char \<Rightarrow> nat" where
  "digitVal c = of_char c - 48"

text \<open>The value of a string of decimal digits (\<open>+m[1]\<close> on a \<open>\d\<close> group).\<close>

definition digitsToNat :: "string \<Rightarrow> nat" where
  "digitsToNat s = foldl (\<lambda>acc c. 10 * acc + digitVal c) 0 s"

definition digitChar :: "nat \<Rightarrow> char" where
  "digitChar d = char_of (48 + d)"

text \<open>The decimal digits of a natural number, as \<open>Number::toString\<close> writes an integer.\<close>

fun showNat :: "nat \<Rightarrow> string" where
  "showNat n = (if n < 10 then [digitChar n] else showNat (n div 10) @ [digitChar (n mod 10)])"

declare showNat.simps [simp del]

definition showInt :: "int \<Rightarrow> string" where
  "showInt i = (if i < 0 then CHR ''-'' # showNat (nat (- i)) else showNat (nat i))"

definition isInteger :: "rat \<Rightarrow> bool" where
  "isInteger q \<longleftrightarrow> of_int \<lfloor>q\<rfloor> = q"

text \<open>
  \<open>Number::toString\<close>: an integer below \<open>10^21\<close> is written with all its digits,
  which is what the builtin writes for an integer up to \<open>2^53\<close> (it writes a larger
  one with the shortest digits that read back as the same double, then zeros); any
  other finite number is left to the host.
\<close>

fun numberToString :: "host \<Rightarrow> jsnum \<Rightarrow> string" where
  "numberToString h NaN = ''NaN''"
| "numberToString h PosInf = ''Infinity''"
| "numberToString h NegInf = ''-Infinity''"
| "numberToString h (Fin q) =
     (if isInteger q \<and> \<bar>q\<bar> < 10 ^ 21 then showInt \<lfloor>q\<rfloor> else numToString h q)"

fun ToString :: "host \<Rightarrow> jsval \<Rightarrow> string" where
  "ToString h JUndefined = ''undefined''"
| "ToString h JNull = ''null''"
| "ToString h (JBool b) = (if b then ''true'' else ''false'')"
| "ToString h (JNum n) = numberToString h n"
| "ToString h (JStr s) = s"
| "ToString h (JDate d) = dateToString h d"
| "ToString h (JObj s) = s"

subsection \<open>parseFloat\<close>

text \<open>
  The builtin \<open>parseFloat\<close>: skip leading white space (here the ASCII white space; the
  builtin also skips the no-break space and the other Unicode white space),
  read the longest prefix that is a decimal literal (sign, then \<open>Infinity\<close> or digits
  with an optional fraction and an optional exponent), \<open>NaN\<close> when there is none.
\<close>

definition isWhiteSpace :: "char \<Rightarrow> bool" where
  "isWhiteSpace c \<longleftrightarrow> of_char c \<in> {9, 10, 11, 12, 13, 32 :: nat}"

definition scale10 :: "rat \<Rightarrow> int \<Rightarrow> rat" where
  "scale10 q e = (if 0 \<le> e then q * 10 ^ nat e else q / 10 ^ nat (- e))"

text \<open>The exponent part \<open>[eE][+-]?\d+\<close> at the head of a string, 0 when there is none.\<close>

definition exponentPart :: "string \<Rightarrow> int" where
  "exponentPart s =
     (case s of
        [] \<Rightarrow> 0
      | c # r \<Rightarrow>
          if c = CHR ''e'' \<or> c = CHR ''E'' then
            (case r of
               [] \<Rightarrow> 0
             | d # r' \<Rightarrow>
                 if d = CHR ''-'' then
                   (if takeWhile isDigit r' = [] then 0
                    else - int (digitsToNat (takeWhile isDigit r')))
                 else if d = CHR ''+'' then int (digitsToNat (takeWhile isDigit r'))
                 else int (digitsToNat (takeWhile isDigit r)))
          else 0)"

definition unsignedLiteral :: "string \<Rightarrow> rat option" where
  "unsignedLiteral u =
     (let ip = takeWhile isDigit u;
          r1 = dropWhile isDigit u;
          fp = (case r1 of [] \<Rightarrow> [] | c # r \<Rightarrow> if c = CHR ''.'' then takeWhile isDigit r else []);
          r2 = (case r1 of [] \<Rightarrow> [] | c # r \<Rightarrow> if c = CHR ''.'' then dropWhile isDigit r else r1)
      in if ip = [] \<and> fp = [] then None
         else Some (scale10 (of_nat (digitsToNat (ip @ fp))) (exponentPart r2 - int (length fp))))"

definition parseFloat :: "string \<Rightarrow> jsnum" where
  "parseFloat s =
     (let t = dropWhile isWhiteSpace s;
          neg = (case t of [] \<Rightarrow> False | c # _ \<Rightarrow> c = CHR ''-'');
          u = (case t of [] \<Rightarrow> [] | c # r \<Rightarrow> if c = CHR ''-'' \<or> c = CHR ''+'' then r else t)
      in if take 8 u = ''Infinity'' then (if neg then NegInf else PosInf)
         else (case unsignedLiteral u of
                 None \<Rightarrow> NaN
               | Some q \<Rightarrow> Fin (if neg then - q else q)))"

subsection \<open>Arithmetic on numbers\<close>

fun jsAdd :: "jsnum \<Rightarrow> jsnum \<Rightarrow> jsnum" where
  "jsAdd (Fin a) (Fin b) = Fin (a + b)"
| "jsAdd NaN _ = NaN"
| "jsAdd _ NaN = NaN"
| "jsAdd PosInf NegInf = NaN"
| "jsAdd NegInf PosInf = NaN"
| "jsAdd PosInf _ = PosInf"
| "jsAdd _ PosInf = PosInf"
| "jsAdd NegInf _ = NegInf"
| "jsAdd _ NegInf = NegInf"

fun jsLess :: "jsnum \<Rightarrow> jsnum \<Rightarrow> bool" where
  "jsLess (Fin a) (Fin b) = (a < b)"
| "jsLess NaN _ = False"
| "jsLess _ NaN = False"
| "jsLess NegInf NegInf = False"
| "jsLess NegInf _ = True"
| "jsLess _ NegInf = False"
| "jsLess PosInf _ = False"
| "jsLess _ PosInf = True"

text \<open>Rounding towards zero (\<open>ToIntegerOrInfinity\<close> on a finite number).\<close>

definition toInteger :: "rat \<Rightarrow> int" where
  "toInteger q = (if 0 \<le> q then \<lfloor>q\<rfloor> else \<lceil>q\<rceil>)"

section \<open>The Date builtin\<close>

text \<open>
  Time values and the calendar, as the language standard defines them: days since the
  epoch, the proleptic Gregorian calendar, no leap seconds.
\<close>

definition msPerDay :: int where
  "msPerDay = 86400000"

definition Day :: "int \<Rightarrow> int" where
  "Day t = t div msPerDay"

definition TimeWithinDay :: "int \<Rightarrow> int" where
  "TimeWithinDay t = t mod msPerDay"

definition DayFromYear :: "int \<Rightarrow> int" where
  "DayFromYear y = 365 * (y - 1970) + (y - 1969) div 4 - (y - 1901) div 100 + (y - 1601) div 400"

text \<open>\<open>DaysInYear y = 366\<close>\<close>

definition isLeapYear :: "int \<Rightarrow> bool" where
  "isLeapYear y =
     (if y mod 4 \<noteq> 0 then False
      else if y mod 100 \<noteq> 0 then True
      else y mod 400 = 0)"

text \<open>
  The year of a day number: the largest \<open>y\<close> with \<open>DayFromYear y \<le> d\<close>, found from the
  estimate \<open>1970 + d div 365\<close> by stepping down and then up.
\<close>

function yearDown :: "int \<Rightarrow> int \<Rightarrow> int" where
  "yearDown d y = (if d < DayFromYear y then yearDown d (y - 1) else y)"
  by pat_completeness auto
termination
proof (relation "measure (\<lambda>(d, y). nat (DayFromYear y - d))")
  show "wf (measure (\<lambda>(d, y). nat (DayFromYear y - d)))" by simp
next
  fix d y :: int
  assume less: "d < DayFromYear y"
  have a: "(y - 1 - 1969) div 4 \<le> (y - 1969) div 4" by (rule zdiv_mono1) simp_all
  have b: "(y - 1901) div 100 \<le> (y - 1 - 1901) div 100 + 1" by linarith
  have c: "(y - 1 - 1601) div 400 \<le> (y - 1601) div 400" by (rule zdiv_mono1) simp_all
  have "DayFromYear (y - 1) < DayFromYear y"
    unfolding DayFromYear_def using a b c by simp
  with less show "((d, y - 1), (d, y)) \<in> measure (\<lambda>(d, y). nat (DayFromYear y - d))"
    by simp
qed

function yearUp :: "int \<Rightarrow> int \<Rightarrow> int" where
  "yearUp d y = (if DayFromYear (y + 1) \<le> d then yearUp d (y + 1) else y)"
  by pat_completeness auto
termination
proof (relation "measure (\<lambda>(d, y). nat (d + 1 - DayFromYear y))")
  show "wf (measure (\<lambda>(d, y). nat (d + 1 - DayFromYear y)))" by simp
next
  fix d y :: int
  assume le: "DayFromYear (y + 1) \<le> d"
  have a: "(y - 1969) div 4 \<le> (y + 1 - 1969) div 4" by (rule zdiv_mono1) simp_all
  have b: "(y + 1 - 1901) div 100 \<le> (y - 1901) div 100 + 1" by linarith
  have c: "(y - 1601) div 400 \<le> (y + 1 - 1601) div 400" by (rule zdiv_mono1) simp_all
  have "DayFromYear y < DayFromYear (y + 1)"
    unfolding DayFromYear_def using a b c by simp
  with le show "((d, y + 1), (d, y)) \<in> measure (\<lambda>(d, y). nat (d + 1 - DayFromYear y))"
    by simp
qed

declare yearDown.simps [simp del] yearUp.simps [simp del]

definition YearFromDay :: "int \<Rightarrow> int" where
  "YearFromDay d = yearUp d (yearDown d (1970 + d div 365))"

definition YearFromTime :: "int \<Rightarrow> int" where
  "YearFromTime t = YearFromDay (Day t)"

definition DayWithinYear :: "int \<Rightarrow> int" where
  "DayWithinYear t = Day t - DayFromYear (YearFromTime t)"

text \<open>The day of the year on which month \<open>m\<close> (0 to 11) starts; 12 gives the year's length.\<close>

definition monthStart :: "bool \<Rightarrow> int \<Rightarrow> int" where
  "monthStart leap m =
     (if m \<le> 0 then 0 else if m = 1 then 31
      else [59, 90, 120, 151, 181, 212, 243, 273, 304, 334, 365] ! nat (m - 2)
           + (if leap then 1 else 0))"

definition MonthFromDay :: "bool \<Rightarrow> int \<Rightarrow> int" where
  "MonthFromDay leap d =
     (if d < monthStart leap 1 then 0
      else if d < monthStart leap 2 then 1
      else if d < monthStart leap 3 then 2
      else if d < monthStart leap 4 then 3
      else if d < monthStart leap 5 then 4
      else if d < monthStart leap 6 then 5
      else if d < monthStart leap 7 then 6
      else if d < monthStart leap 8 then 7
      else if d < monthStart leap 9 then 8
      else if d < monthStart leap 10 then 9
      else if d < monthStart leap 11 then 10
      else 11)"

definition MonthFromTime :: "int \<Rightarrow> int" where
  "MonthFromTime t = MonthFromDay (isLeapYear (YearFromTime t)) (DayWithinYear t)"

definition DateFromTime :: "int \<Rightarrow> int" where
  "DateFromTime t =
     DayWithinYear t - monthStart (isLeapYear (YearFromTime t)) (MonthFromTime t) + 1"

definition HourFromTime :: "int \<Rightarrow> int" where
  "HourFromTime t = (t div 3600000) mod 24"

definition MinFromTime :: "int \<Rightarrow> int" where
  "MinFromTime t = (t div 60000) mod 60"

definition SecFromTime :: "int \<Rightarrow> int" where
  "SecFromTime t = (t div 1000) mod 60"

definition MakeTime :: "int \<Rightarrow> int \<Rightarrow> int \<Rightarrow> int \<Rightarrow> int" where
  "MakeTime hour minute sec ms = hour * 3600000 + minute * 60000 + sec * 1000 + ms"

text \<open>A month outside 0 to 11 carries into the year; a date outside the month carries on.\<close>

definition MakeDay :: "int \<Rightarrow> int \<Rightarrow> int \<Rightarrow> int" where
  "MakeDay year month date =
     (let ym = year + month div 12; mn = month mod 12
      in DayFromYear ym + monthStart (isLeapYear ym) mn + date - 1)"

definition MakeDate :: "int \<Rightarrow> int \<Rightarrow> int" where
  "MakeDate day time = day * msPerDay + time"

definition TimeClip :: "int \<Rightarrow> jsdate" where
  "TimeClip t = (if \<bar>t\<bar> > 8640000000000000 then InvalidDate else DateMs t)"

text \<open>A year from 0 to 99 is read as 1900 to 1999 by \<open>Date.UTC\<close> and by the constructor.\<close>

definition fullYear :: "int \<Rightarrow> int" where
  "fullYear y = (if 0 \<le> y \<and> y \<le> 99 then 1900 + y else y)"

text \<open>
  \<open>Date.UTC(year, month, date, hours, minutes, seconds, ms)\<close> on integer fields and a
  number of milliseconds: the time value, \<open>None\<close> for \<open>NaN\<close>.
\<close>

definition DateUTC :: "int \<Rightarrow> int \<Rightarrow> int \<Rightarrow> int \<Rightarrow> int \<Rightarrow> int \<Rightarrow> jsnum \<Rightarrow> int option" where
  "DateUTC year month date hours minutes seconds ms =
     (case ms of
        Fin q \<Rightarrow>
          (case TimeClip (MakeDate (MakeDay (fullYear year) month date)
                            (MakeTime hours minutes seconds (toInteger q))) of
             InvalidDate \<Rightarrow> None
           | DateMs t \<Rightarrow> Some t)
      | _ \<Rightarrow> None)"

text \<open>\<open>new Date(time)\<close> on a time value.\<close>

definition newDateTime :: "int option \<Rightarrow> jsdate" where
  "newDateTime time = (case time of None \<Rightarrow> InvalidDate | Some t \<Rightarrow> TimeClip t)"

text \<open>\<open>new Date(value)\<close> on a number.\<close>

definition newDateNumber :: "jsnum \<Rightarrow> jsdate" where
  "newDateNumber n =
     (case n of
        Fin q \<Rightarrow> if \<bar>q\<bar> > 8640000000000000 then InvalidDate else DateMs (toInteger q)
      | _ \<Rightarrow> InvalidDate)"

text \<open>\<open>new Date(year, month, date)\<close>: midnight of that day in local time.\<close>

definition newDateLocal :: "host \<Rightarrow> int \<Rightarrow> int \<Rightarrow> int \<Rightarrow> jsdate" where
  "newDateLocal h year month date =
     (let t = MakeDate (MakeDay (fullYear year) month date) (MakeTime 0 0 0 0)
      in TimeClip (t - localOffset h t))"

fun getUTCFullYear :: "jsdate \<Rightarrow> jsnum" where
  "getUTCFullYear InvalidDate = NaN"
| "getUTCFullYear (DateMs t) = Fin (of_int (YearFromTime t))"

fun getUTCMonth :: "jsdate \<Rightarrow> jsnum" where
  "getUTCMonth InvalidDate = NaN"
| "getUTCMonth (DateMs t) = Fin (of_int (MonthFromTime t))"

fun getUTCDate :: "jsdate \<Rightarrow> jsnum" where
  "getUTCDate InvalidDate = NaN"
| "getUTCDate (DateMs t) = Fin (of_int (DateFromTime t))"

fun getUTCHours :: "jsdate \<Rightarrow> jsnum" where
  "getUTCHours InvalidDate = NaN"
| "getUTCHours (DateMs t) = Fin (of_int (HourFromTime t))"

fun getUTCMinutes :: "jsdate \<Rightarrow> jsnum" where
  "getUTCMinutes InvalidDate = NaN"
| "getUTCMinutes (DateMs t) = Fin (of_int (MinFromTime t))"

fun getUTCSeconds :: "jsdate \<Rightarrow> jsnum" where
  "getUTCSeconds InvalidDate = NaN"
| "getUTCSeconds (DateMs t) = Fin (of_int (SecFromTime t))"

section \<open>The date codec\<close>

definition pad :: "host \<Rightarrow> jsnum \<Rightarrow> string" where
  "pad h n = (if jsLess n (Fin 10) then ''0'' else []) @ numberToString h n"

definition formatDate :: "host \<Rightarrow> jsdate \<Rightarrow> string" where
  "formatDate h date =
     (let dt = numberToString h (getUTCFullYear date) @ ''-''
               @ pad h (jsAdd (getUTCMonth date) (Fin 1)) @ ''-'' @ pad h (getUTCDate date);
          time = pad h (getUTCHours date) @ '':'' @ pad h (getUTCMinutes date) @ '':''
               @ pad h (getUTCSeconds date)
      in dt @ ''T'' @ time @ ''Z'')"

text \<open>
  The regular expressions of \<open>parseDate\<close>, each as a matcher that returns the groups of
  a match. \<open>allDigits\<close> is a run of \<open>\d\<close>.
\<close>

definition allDigits :: "string \<Rightarrow> bool" where
  "allDigits s = list_all isDigit s"

text \<open>\<open>/^\d{4}$/\<close>\<close>

definition matchYear :: "string \<Rightarrow> string option" where
  "matchYear s = (if length s = 4 \<and> allDigits s then Some s else None)"

text \<open>\<open>/^(\d{4})-(\d{2})$/\<close>\<close>

definition matchYearMonth :: "string \<Rightarrow> (string \<times> string) option" where
  "matchYearMonth s =
     (if length s = 7 \<and> allDigits (take 4 s) \<and> s ! 4 = CHR ''-'' \<and> allDigits (drop 5 s)
      then Some (take 4 s, drop 5 s) else None)"

text \<open>\<open>/^(\d{4})-(\d{2})-(\d{2})$/\<close>\<close>

definition matchYearMonthDay :: "string \<Rightarrow> (string \<times> string \<times> string) option" where
  "matchYearMonthDay s =
     (if length s = 10 \<and> allDigits (take 4 s) \<and> s ! 4 = CHR ''-''
         \<and> allDigits (take 2 (drop 5 s)) \<and> s ! 7 = CHR ''-'' \<and> allDigits (drop 8 s)
      then Some (take 4 s, take 2 (drop 5 s), drop 8 s) else None)"

text \<open>\<open>/^([+-])(\d{2}):(\d{2})$/\<close>\<close>

definition matchOffset :: "string \<Rightarrow> (char \<times> string \<times> string) option" where
  "matchOffset s =
     (if length s = 6 \<and> (s ! 0 = CHR ''+'' \<or> s ! 0 = CHR ''-'')
         \<and> allDigits (take 2 (drop 1 s)) \<and> s ! 3 = CHR '':'' \<and> allDigits (drop 4 s)
      then Some (s ! 0, take 2 (drop 1 s), drop 4 s) else None)"

text \<open>The last group of the full form, \<open>(Z|[+-]\d{2}:\d{2})$\<close>.\<close>

definition matchZone :: "string \<Rightarrow> string option" where
  "matchZone s = (if s = ''Z'' \<or> matchOffset s \<noteq> None then Some s else None)"

text \<open>
  \<open>/^(\d{4})-(\d{2})-(\d{2})T(\d{2}):(\d{2})(?::(\d{2})(\.\d+)?)?(Z|[+-]\d{2}:\d{2})$/\<close>.
  The seconds group is taken when \<open>:\<close> and two digits follow the minutes, the fraction
  group when a dot and at least one digit follow the seconds, with all the digits there
  are; no other choice can match, since the zone starts with none of \<open>:\<close>, \<open>.\<close> and a
  digit.
\<close>

record dateTimeMatch =
  mYear :: string
  mMonth :: string
  mDay :: string
  mHour :: string
  mMinute :: string
  mSecond :: "string option"
  mFraction :: "string option"
  mZone :: string

definition matchDateTime :: "string \<Rightarrow> dateTimeMatch option" where
  "matchDateTime s =
     (if 16 \<le> length s \<and> allDigits (take 4 s) \<and> s ! 4 = CHR ''-''
         \<and> allDigits (take 2 (drop 5 s)) \<and> s ! 7 = CHR ''-''
         \<and> allDigits (take 2 (drop 8 s)) \<and> s ! 10 = CHR ''T''
         \<and> allDigits (take 2 (drop 11 s)) \<and> s ! 13 = CHR '':''
         \<and> allDigits (take 2 (drop 14 s))
      then
        (let r = drop 16 s;
             hasSec = (3 \<le> length r \<and> r ! 0 = CHR '':'' \<and> allDigits (take 2 (drop 1 r)));
             r1 = (if hasSec then drop 3 r else r);
             hasFrac = (hasSec \<and> 2 \<le> length r1 \<and> r1 ! 0 = CHR ''.'' \<and> isDigit (r1 ! 1));
             r2 = (if hasFrac then dropWhile isDigit (drop 1 r1) else r1)
         in case matchZone r2 of
              None \<Rightarrow> None
            | Some z \<Rightarrow>
                Some \<lparr> mYear = take 4 s, mMonth = take 2 (drop 5 s), mDay = take 2 (drop 8 s),
                       mHour = take 2 (drop 11 s), mMinute = take 2 (drop 14 s),
                       mSecond = (if hasSec then Some (take 2 (drop 1 r)) else None),
                       mFraction =
                         (if hasFrac then Some (CHR ''.'' # takeWhile isDigit (drop 1 r1))
                          else None),
                       mZone = z \<rparr>)
      else None)"

text \<open>\<open>+m[i]\<close> on a group of digits.\<close>

definition num :: "string \<Rightarrow> int" where
  "num s = int (digitsToNat s)"

text \<open>
  \<open>parseFloat(m[7] || '0') * 1000\<close>, as the exact product: the code multiplies doubles,
  so that its product can be off by a fraction of a millisecond.
\<close>

definition fractionMs :: "string option \<Rightarrow> jsnum" where
  "fractionMs f =
     (case parseFloat (case f of None \<Rightarrow> ''0'' | Some t \<Rightarrow> if t = [] then ''0'' else t) of
        Fin q \<Rightarrow> Fin (q * 1000)
      | NaN \<Rightarrow> NaN
      | PosInf \<Rightarrow> PosInf
      | NegInf \<Rightarrow> NegInf)"

text \<open>The change of the time value for an offset \<open>+hh:mm\<close> or \<open>-hh:mm\<close>.\<close>

definition offsetMs :: "string \<Rightarrow> int" where
  "offsetMs z =
     (case matchOffset z of
        None \<Rightarrow> 0
      | Some (sign, hh, mm) \<Rightarrow>
          (if sign = CHR ''-'' then 1 else - 1) * ((num hh * 60 + num mm) * 60 * 1000))"

definition parseDate :: "host \<Rightarrow> string \<Rightarrow> error + jsdate" where
  "parseDate h str =
     (case matchYear str of
        Some y \<Rightarrow> Inr (newDateLocal h (num y) 0 1)
      | None \<Rightarrow>
     (case matchYearMonth str of
        Some (y, mo) \<Rightarrow> Inr (newDateLocal h (num y) (num mo - 1) 1)
      | None \<Rightarrow>
     (case matchYearMonthDay str of
        Some (y, mo, d) \<Rightarrow> Inr (newDateLocal h (num y) (num mo - 1) (num d))
      | None \<Rightarrow>
     (case matchYearMonthDay str of
        Some (y, mo, d) \<Rightarrow> Inr (newDateLocal h (num y) (num mo - 1) (num d))
      | None \<Rightarrow>
     (case matchDateTime str of
        Some m \<Rightarrow>
          (let time = DateUTC (num (mYear m)) (num (mMonth m) - 1) (num (mDay m))
                        (num (mHour m)) (num (mMinute m))
                        (case mSecond m of None \<Rightarrow> 0 | Some sec \<Rightarrow> num sec)
                        (fractionMs (mFraction m));
               time' = (if mZone m \<noteq> ''Z'' then map_option (\<lambda>t. t + offsetMs (mZone m)) time
                        else time)
           in Inr (newDateTime time'))
      | None \<Rightarrow> Inl (InvalidDateFormat str))))))"

section \<open>The sitemap entry\<close>

definition DEFAULT_PRIORITY :: jsnum where
  "DEFAULT_PRIORITY = Fin (1 / 2)"

text \<open>
  The fields of a \<open>SitemapEntry\<close> object. \<open>url\<close> is \<open>null\<close> or a string on every path
  of the code; \<open>priv_lastModified\<close> and \<open>priv_priority\<close> are the fields
  \<open>_lastModified\<close> and \<open>_priority\<close> behind the accessors.
\<close>

record SitemapEntry =
  url :: "string option"
  changeFrequency :: jsval
  priv_lastModified :: "jsdate option"
  priv_priority :: jsval

definition newEntry :: SitemapEntry where
  "newEntry = \<lparr> url = None, changeFrequency = JNull, priv_lastModified = None,
                priv_priority = JNum DEFAULT_PRIORITY \<rparr>"

text \<open>The \<open>priority\<close> accessors.\<close>

definition getPriority :: "SitemapEntry \<Rightarrow> jsval" where
  "getPriority e = priv_priority e"

fun isNumber :: "jsval \<Rightarrow> bool" where
  "isNumber (JNum n) = True"
| "isNumber _ = False"

definition setPriority :: "host \<Rightarrow> jsval \<Rightarrow> SitemapEntry \<Rightarrow> error + SitemapEntry" where
  "setPriority h v e =
     (if \<not> truthy v then Inr e
      else if \<not> isNumber v then
        (let n = parseFloat (ToString h v)
         in if isNaN n then Inl InvalidPriority else Inr (e\<lparr>priv_priority := JNum n\<rparr>))
      else Inr (e\<lparr>priv_priority := v\<rparr>))"

text \<open>The \<open>lastModified\<close> accessors.\<close>

definition getLastModified :: "SitemapEntry \<Rightarrow> jsdate option" where
  "getLastModified e = priv_lastModified e"

fun setLastModified :: "host \<Rightarrow> jsval \<Rightarrow> SitemapEntry \<Rightarrow> error + SitemapEntry" where
  "setLastModified h JUndefined e = Inr e"
| "setLastModified h (JNum n) e = Inr (e\<lparr>priv_lastModified := Some (newDateNumber n)\<rparr>)"
| "setLastModified h (JStr s) e =
     (case parseDate h s of
        Inl err \<Rightarrow> Inl err
      | Inr d \<Rightarrow> Inr (e\<lparr>priv_lastModified := Some d\<rparr>))"
| "setLastModified h (JDate d) e = Inr (e\<lparr>priv_lastModified := Some d\<rparr>)"
| "setLastModified h _ e = Inl InvalidLastModifiedType"

section \<open>Reading a document\<close>

fun innerText :: "node \<Rightarrow> string" where
  "innerText (Node t n d cs) =
     (if t = ''text'' then d
      else if t = ''tag'' then concat (map innerText cs)
      else [])"

text \<open>
  One step of \<open>readNode\<close>: a child named in \<open>nodeMapping\<close> assigns its text to the
  mapped property, through the accessor where the property has one. (The test
  \<open>child.name in nodeMapping\<close> also holds for the names every object inherits, such
  as \<open>toString\<close>; the assignment then goes to a property that is none of the four
  fields, which stay as they are.)
\<close>

definition readChild :: "host \<Rightarrow> SitemapEntry \<Rightarrow> node \<Rightarrow> error + SitemapEntry" where
  "readChild h e child =
     (case nname child of
        None \<Rightarrow> Inr e
      | Some name \<Rightarrow>
          if name = ''loc'' then Inr (e\<lparr>url := Some (innerText child)\<rparr>)
          else if name = ''lastmod'' then setLastModified h (JStr (innerText child)) e
          else if name = ''changefreq'' then Inr (e\<lparr>changeFrequency := JStr (innerText child)\<rparr>)
          else if name = ''priority'' then setPriority h (JStr (innerText child)) e
          else Inr e)"

fun readChildren :: "host \<Rightarrow> SitemapEntry \<Rightarrow> node list \<Rightarrow> error + SitemapEntry" where
  "readChildren h e [] = Inr e"
| "readChildren h e (child # rest) =
     (case readChild h e child of
        Inl err \<Rightarrow> Inl err
      | Inr e' \<Rightarrow> readChildren h e' rest)"

definition readNode :: "host \<Rightarrow> node \<Rightarrow> SitemapEntry \<Rightarrow> error + SitemapEntry" where
  "readNode h n e = readChildren h e (nchildren n)"

text \<open>\<open>new SitemapEntry(node)\<close>\<close>

definition newEntryFromNode :: "host \<Rightarrow> node \<Rightarrow> error + SitemapEntry" where
  "newEntryFromNode h n = readNode h n newEntry"

text \<open>An item of a document: an entry, or the marker object \<open>GENERATE_MAP\<close>.\<close>

datatype item = Entry SitemapEntry | GENERATE_MAP

text \<open>
  \<open>parseUrlsetNode\<close>: the loop over the children of \<open>n\<close>, with the list built so far.
  The test for the marker reads the type of \<open>n\<close> itself, as the source does.
\<close>

fun parseUrlsetChildren :: "host \<Rightarrow> node \<Rightarrow> item list \<Rightarrow> node list \<Rightarrow> error + item list" where
  "parseUrlsetChildren h n out [] = Inr out"
| "parseUrlsetChildren h n out (child # rest) =
     (if nname child = Some ''url'' then
        (case newEntryFromNode h child of
           Inl err \<Rightarrow> Inl err
         | Inr e \<Rightarrow> parseUrlsetChildren h n (out @ [Entry e]) rest)
      else if ntype n = ''pi'' then parseUrlsetChildren h n (out @ [GENERATE_MAP]) rest
      else parseUrlsetChildren h n out rest)"

definition parseUrlsetNode :: "host \<Rightarrow> node \<Rightarrow> error + item list" where
  "parseUrlsetNode h n = parseUrlsetChildren h n [] (nchildren n)"

fun parseTopLevel :: "host \<Rightarrow> item list \<Rightarrow> node list \<Rightarrow> error + item list" where
  "parseTopLevel h result [] = Inr result"
| "parseTopLevel h result (n # rest) =
     (if nname n = Some ''urlset'' then
        (case parseUrlsetNode h n of
           Inl err \<Rightarrow> Inl err
         | Inr xs \<Rightarrow> parseTopLevel h (result @ xs) rest)
      else parseTopLevel h result rest)"

definition parseSitemap :: "host \<Rightarrow> string \<Rightarrow> error + item list" where
  "parseSitemap h contents = parseTopLevel h [] (parseDOM h contents)"

section \<open>The document\<close>

text \<open>
  What the constructor is given: an array (of items), or any other value; \<open>JObj\<close> in
  \<open>Other\<close> is an object that is not an array.
\<close>

datatype contents = Array "item list" | Other jsval

record SitemapDoc =
  items :: "item list"

fun truthyContents :: "contents \<Rightarrow> bool" where
  "truthyContents (Array xs) = True"
| "truthyContents (Other v) = truthy v"

fun isArray :: "contents \<Rightarrow> bool" where
  "isArray (Array xs) = True"
| "isArray (Other v) = False"

fun isString :: "contents \<Rightarrow> bool" where
  "isString (Other (JStr s)) = True"
| "isString _ = False"

text \<open>The items of an array; the constructor stores nothing else.\<close>

fun arrayItems :: "contents \<Rightarrow> item list" where
  "arrayItems (Array xs) = xs"
| "arrayItems (Other v) = []"

definition Sitemap :: "host \<Rightarrow> contents \<Rightarrow> error + SitemapDoc" where
  "Sitemap h contents =
     (let c1 = (if truthyContents contents then contents else Array []);
          c2 = (case c1 of
                  Other (JStr s) \<Rightarrow> map_sum id Array (parseSitemap h s)
                | _ \<Rightarrow> Inr c1)
      in case c2 of
           Inl err \<Rightarrow> Inl err
         | Inr c \<Rightarrow>
             if truthyContents c \<and> \<not> isArray c then Inl InvalidSitemapContents
             else Inr \<lparr> items = arrayItems c \<rparr>)"

section \<open>Writing a document\<close>

definition newline :: string where
  "newline = [CHR 0x0A]"

text \<open>\<open>SitemapEntry.prototype.toXml\<close>\<close>

definition entryToXml :: "host \<Rightarrow> SitemapEntry \<Rightarrow> string \<Rightarrow> string" where
  "entryToXml h e indent =
     (let innerIndent = (if indent \<noteq> [] then indent @ ''  '' else []);
          out0 = indent @ ''<url>'' @ newline;
          out1 = out0 @ innerIndent @ ''<loc>''
                   @ (case url e of None \<Rightarrow> ''null'' | Some u \<Rightarrow> u) @ ''</loc>'' @ newline;
          out2 = (if truthy (changeFrequency e)
                  then out1 @ innerIndent @ ''<changefreq>'' @ ToString h (changeFrequency e)
                         @ ''</changefreq>'' @ newline
                  else out1);
          out3 = (if truthy (getPriority e) \<and> getPriority e \<noteq> JNum DEFAULT_PRIORITY
                  then out2 @ innerIndent @ ''<priority>'' @ ToString h (getPriority e)
                         @ ''</priority>'' @ newline
                  else out2);
          out4 = (case getLastModified e of
                    Some d \<Rightarrow> out3 @ innerIndent @ ''<lastmod>'' @ formatDate h d
                                @ ''</lastmod>'' @ newline
                  | None \<Rightarrow> out3)
      in out4 @ indent @ ''</url>'')"

text \<open>\<open>item.toXml('  ')\<close>: the marker object has no such method.\<close>

fun itemToXml :: "host \<Rightarrow> item \<Rightarrow> error + string" where
  "itemToXml h (Entry e) = Inr (entryToXml h e ''  '')"
| "itemToXml h GENERATE_MAP = Inl TypeError"

fun mapItems :: "host \<Rightarrow> item list \<Rightarrow> error + string list" where
  "mapItems h [] = Inr []"
| "mapItems h (x # xs) =
     (case itemToXml h x of
        Inl err \<Rightarrow> Inl err
      | Inr s \<Rightarrow> (case mapItems h xs of Inl err \<Rightarrow> Inl err | Inr ss \<Rightarrow> Inr (s # ss)))"

fun join :: "string \<Rightarrow> string list \<Rightarrow> string" where
  "join sep [] = []"
| "join sep [x] = x"
| "join sep (x # y # ys) = x @ sep @ join sep (y # ys)"

text \<open>\<open>Sitemap.prototype.toXml\<close>\<close>

definition toXml :: "host \<Rightarrow> SitemapDoc \<Rightarrow> error + string" where
  "toXml h doc =
     (case mapItems h (items doc) of
        Inl err \<Rightarrow> Inl err
      | Inr ss \<Rightarrow>
          Inr (''<?xml version=\"1.0\" encoding=\"UTF-8\"?>'' @ newline
               @ ''<urlset xmlns=\"http://www.sitemaps.org/schemas/sitemap/0.9\">'' @ newline
               @ join newline ss
               @ newline @ ''</urlset>'' @ newline))"

section \<open>Paths\<close>

text \<open>The functions of the \<open>path\<close> module that the generator calls, for POSIX paths.\<close>

fun splitOn :: "char \<Rightarrow> string \<Rightarrow> string list" where
  "splitOn c [] = [[]]"
| "splitOn c (x # xs) =
     (if x = c then [] # splitOn c xs
      else (case splitOn c xs of [] \<Rightarrow> [[x]] | seg # segs \<Rightarrow> (x # seg) # segs))"

text \<open>The segments kept so far are held in reverse.\<close>

fun normalizeSegments :: "bool \<Rightarrow> string list \<Rightarrow> string list \<Rightarrow> string list" where
  "normalizeSegments allowAboveRoot res [] = rev res"
| "normalizeSegments allowAboveRoot res (seg # segs) =
     (if seg = [] \<or> seg = ''.'' then normalizeSegments allowAboveRoot res segs
      else if seg = ''..'' then
        (case res of
           [] \<Rightarrow> normalizeSegments allowAboveRoot (if allowAboveRoot then [''..''] else []) segs
         | r # rs \<Rightarrow>
             if r = ''..'' then normalizeSegments allowAboveRoot (''..'' # res) segs
             else normalizeSegments allowAboveRoot rs segs)
      else normalizeSegments allowAboveRoot (seg # res) segs)"

definition normalizeString :: "string \<Rightarrow> bool \<Rightarrow> string" where
  "normalizeString p allowAboveRoot =
     join ''/'' (normalizeSegments allowAboveRoot [] (splitOn CHR ''/'' p))"

definition normalize :: "string \<Rightarrow> string" where
  "normalize p =
     (if p = [] then ''.''
      else
        (let isAbsolute = (hd p = CHR ''/'');
             trailingSeparator = (last p = CHR ''/'');
             r = normalizeString p (\<not> isAbsolute);
             r1 = (if r = [] \<and> \<not> isAbsolute then ''.'' else r);
             r2 = (if r1 \<noteq> [] \<and> trailingSeparator then r1 @ ''/'' else r1)
         in if isAbsolute then CHR ''/'' # r2 else r2))"

text \<open>\<open>path.join\<close> of two paths.\<close>

definition pathJoin :: "string \<Rightarrow> string \<Rightarrow> string" where
  "pathJoin a b =
     (let joined = (if a = [] then b else if b = [] then a else a @ ''/'' @ b)
      in if joined = [] then ''.'' else normalize joined)"

text \<open>
  \<open>path.extname\<close>: from the last dot of the last segment, or nothing when that segment
  has no dot, starts with its only dot, or is \<open>..\<close>.
\<close>

definition extname :: "string \<Rightarrow> string" where
  "extname p =
     (let base = last (splitOn CHR ''/'' p);
          ext = CHR ''.'' # last (splitOn CHR ''.'' base)
      in if CHR ''.'' \<notin> set base \<or> base = ''..'' \<or> length ext = length base then []
         else ext)"

section \<open>The generator\<close>

record stats =
  stat_isFile :: bool
  stat_isDirectory :: bool
  mtime :: jsdate

text \<open>
  An option that is a value or a function of the URL, the stats and the file name. (The
  code also hands the options to the function as \<open>this\<close>; here a function that reads
  them has them in its closure.)
\<close>

datatype optValue = Literal jsval | Function "string \<Rightarrow> stats \<Rightarrow> string \<Rightarrow> jsval"

datatype extFilter = ExtList "string list" | ExtFunction "string \<Rightarrow> nat \<Rightarrow> bool"

record options =
  opt_ext :: extFilter
  opt_index :: "string list option"
  opt_lastModified :: optValue
  opt_includeSitemap :: bool
  opt_changeFrequency :: optValue
  opt_priority :: optValue
  opt_prefix :: "string option"

text \<open>The options a caller gives: \<open>None\<close> for a key that is not there.\<close>

record userOptions =
  user_ext :: "extFilter option"
  user_index :: "string list option option"
  user_lastModified :: "optValue option"
  user_includeSitemap :: "bool option"
  user_changeFrequency :: "optValue option"
  user_priority :: "optValue option"
  user_prefix :: "string option option"

definition noOptions :: userOptions where
  "noOptions = \<lparr> user_ext = None, user_index = None, user_lastModified = None,
                 user_includeSitemap = None, user_changeFrequency = None,
                 user_priority = None, user_prefix = None \<rparr>"

definition defaultOptions :: options where
  "defaultOptions =
     \<lparr> opt_ext = ExtList [''.html'', ''.htm''],
       opt_index = Some [''index.html'', ''index.htm''],
       opt_lastModified = Literal (JBool True),
       opt_includeSitemap = True,
       opt_changeFrequency = Literal JUndefined,
       opt_priority = Literal JUndefined,
       opt_prefix = None \<rparr>"

text \<open>\<open>extend(a, b)\<close>: the keys of \<open>b\<close> replace those of \<open>a\<close>.\<close>

definition extend :: "options \<Rightarrow> userOptions \<Rightarrow> options" where
  "extend a b =
     \<lparr> opt_ext = (case user_ext b of None \<Rightarrow> opt_ext a | Some v \<Rightarrow> v),
       opt_index = (case user_index b of None \<Rightarrow> opt_index a | Some v \<Rightarrow> v),
       opt_lastModified = (case user_lastModified b of None \<Rightarrow> opt_lastModified a | Some v \<Rightarrow> v),
       opt_includeSitemap =
         (case user_includeSitemap b of None \<Rightarrow> opt_includeSitemap a | Some v \<Rightarrow> v),
       opt_changeFrequency =
         (case user_changeFrequency b of None \<Rightarrow> opt_changeFrequency a | Some v \<Rightarrow> v),
       opt_priority = (case user_priority b of None \<Rightarrow> opt_priority a | Some v \<Rightarrow> v),
       opt_prefix = (case user_prefix b of None \<Rightarrow> opt_prefix a | Some v \<Rightarrow> v) \<rparr>"

definition createUrl :: "string \<Rightarrow> string option \<Rightarrow> bool \<Rightarrow> string" where
  "createUrl entry prefix ensureFinalSlash =
     (let e1 = (case entry of [] \<Rightarrow> entry | c # r \<Rightarrow> if c = CHR ''/'' then r else entry);
          e2 = (case prefix of
                  None \<Rightarrow> e1
                | Some p \<Rightarrow> if p = [] then e1 else normalize (pathJoin p e1));
          e3 = (case e2 of [] \<Rightarrow> CHR ''/'' # e2 | c # r \<Rightarrow> if c \<noteq> CHR ''/'' then CHR ''/'' # e2 else e2)
      in if ensureFinalSlash \<and> last e3 \<noteq> CHR ''/'' then e3 @ ''/'' else e3)"

fun callIfFn :: "optValue \<Rightarrow> string \<Rightarrow> stats \<Rightarrow> string \<Rightarrow> jsval" where
  "callIfFn (Function f) u st entry = f u st entry"
| "callIfFn (Literal v) u st entry = v"

text \<open>\<open>options.lastModified === true\<close>\<close>

fun isTrue :: "optValue \<Rightarrow> bool" where
  "isTrue (Literal (JBool b)) = b"
| "isTrue _ = False"

definition createSitemapEntry :: "host \<Rightarrow> string \<Rightarrow> options \<Rightarrow> stats \<Rightarrow> bool \<Rightarrow> error + SitemapEntry" where
  "createSitemapEntry h entry opts st isFile =
     (let sme = newEntry;
          u = createUrl entry (opt_prefix opts) isFile;
          sme1 = sme\<lparr>url := Some u\<rparr>;
          sme2 = sme1\<lparr>changeFrequency := callIfFn (opt_changeFrequency opts) u st entry\<rparr>
      in case setPriority h (callIfFn (opt_priority opts) u st entry) sme2 of
           Inl err \<Rightarrow> Inl err
         | Inr sme3 \<Rightarrow>
             if isTrue (opt_lastModified opts)
             then setLastModified h (JDate (mtime st)) sme3
             else setLastModified h (callIfFn (opt_lastModified opts) u st entry) sme3)"

text \<open>\<open>Array.prototype.filter\<close> with the index of each element.\<close>

fun filterIx :: "('a \<Rightarrow> nat \<Rightarrow> bool) \<Rightarrow> nat \<Rightarrow> 'a list \<Rightarrow> 'a list" where
  "filterIx f ix [] = []"
| "filterIx f ix (x # xs) = (if f x ix then x # filterIx f (Suc ix) xs else filterIx f (Suc ix) xs)"

definition filterEntries :: "string list \<Rightarrow> extFilter \<Rightarrow> bool \<Rightarrow> string list" where
  "filterEntries entries ef keepSitemap =
     (let flt = (case ef of
                   ExtFunction f \<Rightarrow> f
                 | ExtList exts \<Rightarrow> (\<lambda>entry ix. let ext = extname entry in ext = [] \<or> ext \<in> set exts))
      in filterIx (\<lambda>entry ix. if keepSitemap \<and> entry = ''sitemap.xml'' then True else flt entry ix)
           0 entries)"

text \<open>\<open>/^\w+:/\<close>\<close>

definition isWordChar :: "char \<Rightarrow> bool" where
  "isWordChar c \<longleftrightarrow>
     c \<in> set ''abcdefghijklmnopqrstuvwxyzABCDEFGHIJKLMNOPQRSTUVWXYZ0123456789_''"

definition reProto :: "string \<Rightarrow> bool" where
  "reProto s =
     (takeWhile isWordChar s \<noteq> []
      \<and> (case dropWhile isWordChar s of [] \<Rightarrow> False | c # r \<Rightarrow> c = CHR '':''))"

text \<open>
  What is on disk at a path: a file (its modification time, and its text when it can be
  read), a directory (its modification time, and its listing in \<open>readdir\<close> order with
  what is at each name; \<open>None\<close> when it cannot be listed), something else that
  \<open>stat\<close> can see, or something on which \<open>stat\<close> fails.
\<close>

datatype fsnode =
    File jsdate "string option"
  | Dir jsdate "(string \<times> fsnode) list option"
  | Special jsdate
  | NoStat

text \<open>
  The step of \<open>getEmbeddedSitemap\<close> on one item. An item without a string \<open>url\<close> (an
  entry whose \<open>url\<close> is \<open>null\<close>, or the marker) does not match \<open>reProto\<close>, and
  \<open>createUrl\<close> then reads \<open>entry[0]\<close> of \<open>null\<close> or \<open>undefined\<close>.
\<close>

fun rewriteItem :: "options \<Rightarrow> item \<Rightarrow> error + item" where
  "rewriteItem opts (Entry e) =
     (case url e of
        None \<Rightarrow> Inl TypeError
      | Some u \<Rightarrow>
          if \<not> reProto u then Inr (Entry (e\<lparr>url := Some (createUrl u (opt_prefix opts) False)\<rparr>))
          else Inr (Entry e))"
| "rewriteItem opts GENERATE_MAP = Inl TypeError"

fun rewriteItems :: "options \<Rightarrow> item list \<Rightarrow> error + item list" where
  "rewriteItems opts [] = Inr []"
| "rewriteItems opts (x # xs) =
     (case rewriteItem opts x of
        Inl err \<Rightarrow> Inl err
      | Inr y \<Rightarrow> (case rewriteItems opts xs of Inl err \<Rightarrow> Inl err | Inr ys \<Rightarrow> Inr (y # ys)))"

text \<open>\<open>getEmbeddedSitemap\<close>, given what is at the path of the file.\<close>

definition getEmbeddedSitemap :: "host \<Rightarrow> fsnode option \<Rightarrow> options \<Rightarrow> error + item list" where
  "getEmbeddedSitemap h file opts =
     (case file of
        Some (File mt (Some contents)) \<Rightarrow>
          (case Sitemap h (Other (JStr contents)) of
             Inl err \<Rightarrow> Inl err
           | Inr sitemap \<Rightarrow> rewriteItems opts (items sitemap))
      | _ \<Rightarrow> Inl FileReadError)"

text \<open>\<open>fs.stat\<close> on an entry of a listing.\<close>

definition statEntry :: "(string \<times> fsnode) list \<Rightarrow> string \<Rightarrow> (stats \<times> fsnode) option" where
  "statEntry es entry =
     (case map_of es entry of
        None \<Rightarrow> None
      | Some NoStat \<Rightarrow> None
      | Some (File mt c) \<Rightarrow> Some (\<lparr> stat_isFile = True, stat_isDirectory = False, mtime = mt \<rparr>, File mt c)
      | Some (Dir mt l) \<Rightarrow> Some (\<lparr> stat_isFile = False, stat_isDirectory = True, mtime = mt \<rparr>, Dir mt l)
      | Some (Special mt) \<Rightarrow> Some (\<lparr> stat_isFile = False, stat_isDirectory = False, mtime = mt \<rparr>, Special mt))"

definition withPrefix :: "options \<Rightarrow> string \<Rightarrow> options" where
  "withPrefix opts p = opts\<lparr>opt_prefix := Some p\<rparr>"

text \<open>
  \<open>scanDir\<close> on what is at the directory's path, and its closure \<open>next\<close> with the
  listing, the result so far and the entries left.
\<close>

function scanDir :: "host \<Rightarrow> options \<Rightarrow> fsnode \<Rightarrow> error + item list"
  and nextEntry :: "host \<Rightarrow> options \<Rightarrow> (string \<times> fsnode) list \<Rightarrow> item list \<Rightarrow> string list
        \<Rightarrow> error + item list"
where
  "scanDir h opts (Dir mt (Some es)) =
     (let entries = filterEntries (map fst es) (opt_ext opts) (opt_includeSitemap opts)
      in if opt_includeSitemap opts \<and> ''sitemap.xml'' \<in> set entries
         then getEmbeddedSitemap h (map_of es ''sitemap.xml'') opts
         else nextEntry h opts es [] entries)"
| "scanDir h opts (Dir mt None) = Inl ReadDirError"
| "scanDir h opts (File mt c) = Inl ReadDirError"
| "scanDir h opts (Special mt) = Inl ReadDirError"
| "scanDir h opts NoStat = Inl ReadDirError"
| "nextEntry h opts es result [] = Inr result"
| "nextEntry h opts es result (entry # entries) =
     (case statEntry es entry of
        None \<Rightarrow> Inl StatError
      | Some (st, child) \<Rightarrow>
          if stat_isFile st then
            (case (if (case opt_index opts of None \<Rightarrow> False | Some ix \<Rightarrow> entry \<in> set ix)
                   then createSitemapEntry h [] opts st True
                   else createSitemapEntry h entry opts st False) of
               Inl err \<Rightarrow> Inl err
             | Inr sme \<Rightarrow> nextEntry h opts es (result @ [Entry sme]) entries)
          else if stat_isDirectory st then
            (case scanDir h (withPrefix opts (createUrl entry (opt_prefix opts) True)) child of
               Inl err \<Rightarrow> Inl err
             | Inr data \<Rightarrow> nextEntry h opts es (result @ data) entries)
          else nextEntry h opts es result entries)"
  by pat_completeness auto
termination
proof (relation "inv_image (less_than <*lex*> less_than)
     (\<lambda>x. case x of
            Inl (h, opts, node) \<Rightarrow> (2 * size node + 1, 0)
          | Inr (h, opts, es, result, entries) \<Rightarrow>
              (2 * size (Dir InvalidDate (Some es)), Suc (length entries)))",
    goal_cases)
  case 1
  show ?case by (intro wf_inv_image wf_lex_prod wf_less_than)
next
  case (4 h opts es result entry entries x2 st child)
  have "size child < size (Dir InvalidDate (Some es))"
    using 4(1,2)
  proof (induction es)
    case Nil
    then show ?case by (simp add: statEntry_def)
  next
    case (Cons a es)
    then show ?case
      by (cases a) (auto simp: statEntry_def split: if_splits option.splits fsnode.splits)
  qed
  then show ?case by simp
qed simp_all

declare scanDir.simps [simp del] nextEntry.simps [simp del]

text \<open>The exported function, given what is at the path \<open>dir\<close>.\<close>

definition generate :: "host \<Rightarrow> fsnode \<Rightarrow> userOptions \<Rightarrow> error + SitemapDoc" where
  "generate h dir userOpts =
     (case scanDir h (extend defaultOptions userOpts) dir of
        Inl err \<Rightarrow> Inl err
      | Inr xs \<Rightarrow> Sitemap h (Array xs))"

text \<open>
  A caller that assigns a list of values in turn; an assignment that throws leaves the
  entry as it was, and the caller goes on.
\<close>

definition assignPriority :: "host \<Rightarrow> SitemapEntry \<Rightarrow> jsval \<Rightarrow> SitemapEntry" where
  "assignPriority h e v = (case setPriority h v e of Inl err \<Rightarrow> e | Inr e' \<Rightarrow> e')"

fun validPriority :: "jsval \<Rightarrow> bool" where
  "validPriority (JNum n) = (\<not> isNaN n)"
| "validPriority _ = False"

text \<open>An item whose priority, if it is an entry, is a number other than \<open>NaN\<close>.\<close>

fun validItem :: "item \<Rightarrow> bool" where
  "validItem (Entry e) = validPriority (priv_priority e)"
| "validItem GENERATE_MAP = True"

text \<open>A host for the worked examples: local time is UTC.\<close>

definition utcHost :: host where
  "utcHost = \<lparr> numToString = (\<lambda>q. ''?''), dateToString = (\<lambda>d. ''Invalid Date''),
               localOffset = (\<lambda>t. 0), parseDOM = (\<lambda>s. []) \<rparr>"

section \<open>A worked example\<close>

text \<open>
  A site in the shape of the test "generate with processing instruction": the directory
  \<open>about/embedded-pi\<close> holds a \<open>sitemap.xml\<close> with one static entry and a processing
  instruction, next to a directory \<open>a\<close> of pages. \<open>piDom\<close> is the tree of that document.
\<close>

definition piDocument :: string where
  "piDocument = ''<urlset><url><loc>/foo/</loc></url><?sitemap-generate?></urlset>''"

definition piDom :: "node list" where
  "piDom =
     [Node ''tag'' (Some ''urlset'') []
        [Node ''tag'' (Some ''url'') []
           [Node ''tag'' (Some ''loc'') [] [Node ''text'' None ''/foo/'' []]],
         Node ''directive'' (Some ''?sitemap-generate?'') ''?sitemap-generate?'' []]]"

definition page :: fsnode where
  "page = File (DateMs 0) (Some [])"

definition sitePi :: fsnode where
  "sitePi =
     Dir (DateMs 0) (Some
       [(''about'', Dir (DateMs 0) (Some
          [(''index.html'', page),
           (''embedded-pi'', Dir (DateMs 0) (Some
              [(''a'', Dir (DateMs 0) (Some
                 [(''include-it'', Dir (DateMs 0) (Some [(''index.html'', page)])),
                  (''index.html'', page)])),
               (''sitemap.xml'', File (DateMs 0) (Some piDocument))]))]))])"

definition pageEntry :: "string \<Rightarrow> item" where
  "pageEntry u = Entry \<lparr> url = Some u, changeFrequency = JUndefined,
                         priv_lastModified = Some (DateMs 0),
                         priv_priority = JNum DEFAULT_PRIORITY \<rparr>"

text \<open>
  A second embedded document, with a relative URL and an absolute one, and its tree.
\<close>

definition embeddedDocument :: string where
  "embeddedDocument =
     ''<urlset><url><loc>embedded/</loc><changefreq>daily</changefreq></url><url><loc>http://example.com/</loc></url></urlset>''"

definition embeddedDom :: "node list" where
  "embeddedDom =
     [Node ''tag'' (Some ''urlset'') []
        [Node ''tag'' (Some ''url'') []
           [Node ''tag'' (Some ''loc'') [] [Node ''text'' None ''embedded/'' []],
            Node ''tag'' (Some ''changefreq'') [] [Node ''text'' None ''daily'' []]],
         Node ''tag'' (Some ''url'') []
           [Node ''tag'' (Some ''loc'') [] [Node ''text'' None ''http://example.com/'' []]]]]"

definition exampleHost :: host where
  "exampleHost =
     utcHost\<lparr>parseDOM := (\<lambda>s. if s = piDocument then piDom
                               else if s = embeddedDocument then embeddedDom else [])\<rparr>"

text \<open>
  The directory \<open>about\<close> of a site, scanned under the prefix \<open>/about/\<close>: an index
  file, the embedded document, and a directory of pages.
\<close>

definition aboutOptions :: options where
  "aboutOptions = withPrefix (extend defaultOptions noOptions) ''/about/''"

definition aboutListing :: "(string \<times> fsnode) list" where
  "aboutListing =
     [(''index.html'', page),
      (''sitemap.xml'', File (DateMs 0) (Some embeddedDocument)),
      (''skip-it'', Dir (DateMs 0) (Some [(''index.html'', page)]))]"

definition embeddedItems :: "item list" where
  "embeddedItems =
     [Entry (newEntry\<lparr>url := Some ''embedded/'', changeFrequency := JStr ''daily''\<rparr>),
      Entry (newEntry\<lparr>url := Some ''http://example.com/''\<rparr>)]"

text \<open>
  Two more embedded documents, with their trees: one whose only URL goes through the
  parent directory, and one whose only \<open>url\<close> element has no \<open>loc\<close>.
\<close>

definition parentDocument :: string where
  "parentDocument = ''<urlset><url><loc>../x</loc></url></urlset>''"

definition parentDom :: "node list" where
  "parentDom =
     [Node ''tag'' (Some ''urlset'') []
        [Node ''tag'' (Some ''url'') []
           [Node ''tag'' (Some ''loc'') [] [Node ''text'' None ''../x'' []]]]]"

definition bareDocument :: string where
  "bareDocument = ''<urlset><url><changefreq>daily</changefreq></url></urlset>''"

definition bareDom :: "node list" where
  "bareDom =
     [Node ''tag'' (Some ''urlset'') []
        [Node ''tag'' (Some ''url'') []
           [Node ''tag'' (Some ''changefreq'') [] [Node ''text'' None ''daily'' []]]]]"

definition parentHost :: host where
  "parentHost =
     utcHost\<lparr>parseDOM := (\<lambda>s. if s = parentDocument then parentDom
                               else if s = bareDocument then bareDom else [])\<rparr>"

section \<open>What the specification says of the embedded document\<close>

text \<open>
  An absolute URL starts with a scheme: one or more word characters, then a colon.
\<close>

definition hasScheme :: "string \<Rightarrow> bool" where
  "hasScheme u \<longleftrightarrow> (\<exists>w rest. u = w @ CHR '':'' # rest \<and> w \<noteq> [] \<and> list_all isWordChar w)"

text \<open>
  A plain path segment, and the URL prefix of the directory reached through a list of
  plain segments: \<open>/\<close> for the root, \<open>/about/embedded/\<close> for \<open>about\<close> then
  \<open>embedded\<close>.
\<close>

definition cleanSegment :: "string \<Rightarrow> bool" where
  "cleanSegment s \<longleftrightarrow> s \<noteq> [] \<and> CHR ''/'' \<notin> set s \<and> s \<noteq> ''.'' \<and> s \<noteq> ''..''"

definition dirUrl :: "string list \<Rightarrow> string" where
  "dirUrl segs = CHR ''/'' # concat (map (\<lambda>s. s @ ''/'') segs)"

text \<open>
  A URL is prefixed with the prefix of a directory when it starts with it.
\<close>

definition startsWith :: "string \<Rightarrow> string \<Rightarrow> bool" where
  "startsWith p s \<longleftrightarrow> take (length p) s = p"

text \<open>An item that is an entry with a URL.\<close>

fun hasUrl :: "item \<Rightarrow> bool" where
  "hasUrl (Entry e) = (url e \<noteq> None)"
| "hasUrl GENERATE_MAP = False"

section \<open>What the specification says of dates\<close>

text \<open>
  The five accepted forms of a date, as the specification lists them: \<open>YYYY\<close>,
  \<open>YYYY-MM\<close>, \<open>YYYY-MM-DD\<close>, and the full form
  \<open>YYYY-MM-DDThh:mm[:ss[.fraction]]\<close> followed by \<open>Z\<close> or by an offset \<open>+hh:mm\<close> or
  \<open>-hh:mm\<close>.
\<close>

definition digits :: "nat \<Rightarrow> string \<Rightarrow> bool" where
  "digits n s \<longleftrightarrow> length s = n \<and> list_all isDigit s"

definition formYear :: "string \<Rightarrow> bool" where
  "formYear s \<longleftrightarrow> digits 4 s"

definition formYearMonth :: "string \<Rightarrow> bool" where
  "formYearMonth s \<longleftrightarrow> (\<exists>y mo. s = y @ ''-'' @ mo \<and> digits 4 y \<and> digits 2 mo)"

definition formYearMonthDay :: "string \<Rightarrow> bool" where
  "formYearMonthDay s \<longleftrightarrow>
     (\<exists>y mo d. s = y @ ''-'' @ mo @ ''-'' @ d \<and> digits 4 y \<and> digits 2 mo \<and> digits 2 d)"

text \<open>The optional seconds with their optional fraction.\<close>

definition formSeconds :: "string \<Rightarrow> bool" where
  "formSeconds t \<longleftrightarrow>
     t = []
     \<or> (\<exists>ss. t = '':'' @ ss \<and> digits 2 ss)
     \<or> (\<exists>ss f. t = '':'' @ ss @ ''.'' @ f \<and> digits 2 ss \<and> f \<noteq> [] \<and> list_all isDigit f)"

text \<open>The full form up to the zone.\<close>

definition formBody :: "string \<Rightarrow> bool" where
  "formBody b \<longleftrightarrow>
     (\<exists>y mo d hh mi t.
        b = y @ ''-'' @ mo @ ''-'' @ d @ ''T'' @ hh @ '':'' @ mi @ t
        \<and> digits 4 y \<and> digits 2 mo \<and> digits 2 d \<and> digits 2 hh \<and> digits 2 mi
        \<and> formSeconds t)"

definition formOffset :: "string \<Rightarrow> bool" where
  "formOffset z \<longleftrightarrow>
     (\<exists>hh mm. (z = ''+'' @ hh @ '':'' @ mm \<or> z = ''-'' @ hh @ '':'' @ mm)
        \<and> digits 2 hh \<and> digits 2 mm)"

definition formDateTimeZ :: "string \<Rightarrow> bool" where
  "formDateTimeZ s \<longleftrightarrow> (\<exists>b. s = b @ ''Z'' \<and> formBody b)"

definition formDateTimeOffset :: "string \<Rightarrow> bool" where
  "formDateTimeOffset s \<longleftrightarrow> (\<exists>b z. s = b @ z \<and> formBody b \<and> formOffset z)"

definition accepted :: "string \<Rightarrow> bool" where
  "accepted s \<longleftrightarrow>
     formYear s \<or> formYearMonth s \<or> formYearMonthDay s
     \<or> formDateTimeZ s \<or> formDateTimeOffset s"

section \<open>Properties of the priority accessor\<close>

lemma setPriority_falsy: "\<not> truthy v \<Longrightarrow> setPriority h v e = Inr e"
  by (simp add: setPriority_def)

lemma setPriority_string:
  "s \<noteq> [] \<Longrightarrow> setPriority h (JStr s) e =
     (if isNaN (parseFloat s) then Inl InvalidPriority
      else Inr (e\<lparr>priv_priority := JNum (parseFloat s)\<rparr>))"
  by (simp add: setPriority_def Let_def)

lemma setPriority_valid:
  assumes "validPriority (priv_priority e)" and "setPriority h v e = Inr e'"
  shows "validPriority (priv_priority e')"
proof (cases "truthy v")
  case False
  with assms show ?thesis by (simp add: setPriority_def)
next
  case True
  show ?thesis
  proof (cases v)
    case (JNum n)
    with True assms(2) show ?thesis
      by (cases n) (auto simp: setPriority_def)
  qed (use True assms(2) in \<open>auto simp: setPriority_def Let_def split: if_splits\<close>)
qed

lemma assignPriority_valid:
  "validPriority (priv_priority e) \<Longrightarrow> validPriority (priv_priority (assignPriority h e v))"
  by (auto simp: assignPriority_def split: sum.splits dest: setPriority_valid)

lemma foldl_assignPriority_valid:
  "validPriority (priv_priority e) \<Longrightarrow>
   validPriority (priv_priority (foldl (assignPriority h) e vs))"
  by (induction vs arbitrary: e) (simp_all add: assignPriority_valid)

text \<open>
  C6, as the code has it: assigning a falsy value (\<open>undefined\<close>, \<open>null\<close>, \<open>false\<close>, 0,
  \<open>NaN\<close>, the empty string) keeps the entry as it is; assigning a non-empty string that
  \<open>parseFloat\<close> does not read as a number fails with \<open>InvalidPriority\<close>; assigning a
  non-empty numeric string stores the parsed number, also when that number is 0; and a
  fresh entry has priority 0.5.
\<close>

theorem C6_priority_setter:
  "(\<not> truthy v \<longrightarrow> setPriority h v e = Inr e)
   \<and> (s \<noteq> [] \<and> isNaN (parseFloat s) \<longrightarrow> setPriority h (JStr s) e = Inl InvalidPriority)
   \<and> (s \<noteq> [] \<and> \<not> isNaN (parseFloat s) \<longrightarrow>
        setPriority h (JStr s) e = Inr (e\<lparr>priv_priority := JNum (parseFloat s)\<rparr>))
   \<and> getPriority newEntry = JNum (Fin (1 / 2))"
  by (simp add: setPriority_falsy setPriority_string getPriority_def newEntry_def
      DEFAULT_PRIORITY_def)

theorem C6_priority_setter_witness:
  "\<not> truthy (JNum (Fin 0))
   \<and> setPriority utcHost (JNum (Fin 0)) newEntry = Inr newEntry
   \<and> ''0.8'' \<noteq> [] \<and> \<not> isNaN (parseFloat ''0.8'')
   \<and> setPriority utcHost (JStr ''0.8'') newEntry
       = Inr (newEntry\<lparr>priv_priority := JNum (Fin (4 / 5))\<rparr>)
   \<and> getPriority newEntry = JNum (Fin (1 / 2))"
proof -
  have pf: "parseFloat ''0.8'' = Fin (4 / 5)" by code_simp
  show ?thesis
    using C6_priority_setter [of "JNum (Fin 0)" utcHost newEntry "''0.8''"]
    by (simp add: pf)
qed

text \<open>
  C6, as the claim states it, fails: the claim says that priority can never be set to 0
  through the setter, but the string \<open>"0"\<close> is truthy, \<open>parseFloat\<close> reads it as 0, and
  the setter stores 0.
\<close>

theorem C6_priority_zero_counterexample:
  "setPriority utcHost (JStr ''0'') newEntry = Inr (newEntry\<lparr>priv_priority := JNum (Fin 0)\<rparr>)
   \<and> getPriority (newEntry\<lparr>priv_priority := JNum (Fin 0)\<rparr>) = JNum (Fin 0)"
proof -
  have pf: "parseFloat ''0'' = Fin 0" by code_simp
  show ?thesis by (simp add: setPriority_def pf getPriority_def)
qed

section \<open>Properties of the reader\<close>

text \<open>
  C2: in the code, a child of a \<open>urlset\<close> element that is a processing instruction adds
  nothing to the item list. \<open>parseUrlsetNode\<close> tests the type of the \<open>urlset\<close> node, not
  of the child, and the \<open>urlset\<close> node is a tag: whether the type of the child reads
  \<open>pi\<close> or \<open>directive\<close>, no marker is appended, and the entries around it are kept.
\<close>

theorem C2_pi_child_adds_nothing:
  "parseUrlsetNode exampleHost
     (Node ''tag'' (Some ''urlset'') []
        [Node ''pi'' (Some ''?sitemap-generate?'') ''?sitemap-generate?'' [],
         Node ''tag'' (Some ''url'') [] [Node ''tag'' (Some ''loc'') [] [Node ''text'' None ''/foo/'' []]],
         Node ''directive'' (Some ''?sitemap-generate?'') ''?sitemap-generate?'' []])
   = Inr [Entry (newEntry\<lparr>url := Some ''/foo/''\<rparr>)]"
  by code_simp

section \<open>Properties of the document constructor\<close>

lemma Sitemap_falsy: "\<not> truthyContents c \<Longrightarrow> Sitemap h c = Inr \<lparr>items = []\<rparr>"
  by (simp add: Sitemap_def)

lemma Sitemap_array: "Sitemap h (Array xs) = Inr \<lparr>items = xs\<rparr>"
  by (simp add: Sitemap_def)

lemma Sitemap_string:
  "s \<noteq> [] \<Longrightarrow> Sitemap h (Other (JStr s)) =
     (case parseSitemap h s of Inl err \<Rightarrow> Inl err | Inr xs \<Rightarrow> Inr \<lparr>items = xs\<rparr>)"
  by (simp add: Sitemap_def split: sum.splits)

lemma Sitemap_other:
  "truthy v \<Longrightarrow> \<not> isString (Other v) \<Longrightarrow> Sitemap h (Other v) = Inl InvalidSitemapContents"
  by (cases v) (simp_all add: Sitemap_def)

text \<open>
  C3, as the code has it: a falsy argument (omitted, \<open>null\<close>, \<open>false\<close>, 0, \<open>NaN\<close>, the
  empty string) gives an empty item list; a non-empty string is parsed, and the items
  read are the item list (or the reader's failure is the constructor's); an array is
  the item list as it is; every other value, that is a truthy value that is neither a
  string nor an array, fails with \<open>InvalidSitemapContents\<close>.
\<close>

theorem C3_constructor:
  "(\<not> truthyContents c \<longrightarrow> Sitemap h c = Inr \<lparr>items = []\<rparr>)
   \<and> (s \<noteq> [] \<longrightarrow> Sitemap h (Other (JStr s)) =
         (case parseSitemap h s of Inl err \<Rightarrow> Inl err | Inr xs \<Rightarrow> Inr \<lparr>items = xs\<rparr>))
   \<and> Sitemap h (Array xs) = Inr \<lparr>items = xs\<rparr>
   \<and> (truthy v \<and> \<not> isString (Other v) \<longrightarrow> Sitemap h (Other v) = Inl InvalidSitemapContents)"
  by (simp add: Sitemap_falsy Sitemap_array Sitemap_string Sitemap_other)

theorem C3_constructor_witness:
  "\<not> truthyContents (Other JUndefined)
   \<and> Sitemap exampleHost (Other JUndefined) = Inr \<lparr>items = []\<rparr>
   \<and> piDocument \<noteq> []
   \<and> Sitemap exampleHost (Other (JStr piDocument))
       = Inr \<lparr>items = [Entry (newEntry\<lparr>url := Some ''/foo/''\<rparr>)]\<rparr>
   \<and> truthy (JNum (Fin 1)) \<and> \<not> isString (Other (JNum (Fin 1)))
   \<and> Sitemap exampleHost (Other (JNum (Fin 1))) = Inl InvalidSitemapContents"
proof -
  have doc: "piDocument \<noteq> []" by (simp add: piDocument_def)
  have parse: "parseSitemap exampleHost piDocument = Inr [Entry (newEntry\<lparr>url := Some ''/foo/''\<rparr>)]"
    by code_simp
  show ?thesis
    using C3_constructor [of "Other JUndefined" exampleHost piDocument "[]" "JNum (Fin 1)"] doc
    by (simp add: parse)
qed

text \<open>
  C3, as the claim states it, fails: \<open>false\<close> and 0 are neither omitted, nor empty, nor
  a string, nor an array, and the constructor does not fail on them: it gives an empty
  item list.
\<close>

theorem C3_falsy_counterexample:
  "Sitemap exampleHost (Other (JBool False)) = Inr \<lparr>items = []\<rparr>
   \<and> Sitemap exampleHost (Other (JNum (Fin 0))) = Inr \<lparr>items = []\<rparr>"
  by (simp add: Sitemap_def)

section \<open>Properties of the generator\<close>

lemma filterIx_keeps: "x \<in> set xs \<Longrightarrow> (\<And>i. f x i) \<Longrightarrow> x \<in> set (filterIx f k xs)"
  by (induction xs arbitrary: k) auto

lemma filterEntries_keeps_sitemap:
  "''sitemap.xml'' \<in> set names \<Longrightarrow> ''sitemap.xml'' \<in> set (filterEntries names ef True)"
  unfolding filterEntries_def Let_def by (rule filterIx_keeps) simp_all

lemma filterIx_subset: "set (filterIx f k xs) \<subseteq> set xs"
  by (induction xs arbitrary: k) auto

lemma filterEntries_subset: "set (filterEntries names ef keep) \<subseteq> set names"
  unfolding filterEntries_def Let_def by (rule filterIx_subset)

lemma scanDir_embedded:
  assumes "opt_includeSitemap opts" and "''sitemap.xml'' \<in> fst ` set es"
  shows "scanDir h opts (Dir mt (Some es)) = getEmbeddedSitemap h (map_of es ''sitemap.xml'') opts"
proof -
  have "''sitemap.xml'' \<in> set (filterEntries (map fst es) (opt_ext opts) True)"
    using assms(2) by (intro filterEntries_keeps_sitemap) simp
  with assms(1) show ?thesis by (simp add: scanDir.simps)
qed

text \<open>
  C4, as the code has it: the default configuration has \<open>includeSitemap\<close> equal to
  \<open>true\<close>. When the caller's configuration does not mention \<open>includeSitemap\<close>, the
  option is on, and a directory that lists \<open>sitemap.xml\<close> is replaced by the embedded
  document.
\<close>

theorem C4_default_includeSitemap:
  "opt_includeSitemap defaultOptions
   \<and> (user_includeSitemap u = None \<longrightarrow>
        opt_includeSitemap (extend defaultOptions u)
        \<and> (''sitemap.xml'' \<in> fst ` set es \<longrightarrow>
             scanDir h (extend defaultOptions u) (Dir mt (Some es))
             = getEmbeddedSitemap h (map_of es ''sitemap.xml'') (extend defaultOptions u)))"
proof -
  have on: "opt_includeSitemap (extend defaultOptions u)" if "user_includeSitemap u = None"
    using that by (simp add: extend_def defaultOptions_def)
  show ?thesis
    using on scanDir_embedded [of "extend defaultOptions u" es h mt]
    by (simp add: defaultOptions_def)
qed

theorem C4_default_includeSitemap_witness:
  "user_includeSitemap noOptions = None
   \<and> opt_includeSitemap (extend defaultOptions noOptions)
   \<and> ''sitemap.xml'' \<in> fst ` set [(''index.html'', page), (''sitemap.xml'', File (DateMs 0) (Some piDocument))]
   \<and> scanDir exampleHost (extend defaultOptions noOptions)
        (Dir (DateMs 0) (Some [(''index.html'', page), (''sitemap.xml'', File (DateMs 0) (Some piDocument))]))
      = Inr [Entry (newEntry\<lparr>url := Some ''/foo/''\<rparr>)]"
proof -
  let ?es = "[(''index.html'', page), (''sitemap.xml'', File (DateMs 0) (Some piDocument))]"
  let ?opts = "extend defaultOptions noOptions"
  have none: "user_includeSitemap noOptions = None" by (simp add: noOptions_def)
  have listed: "''sitemap.xml'' \<in> fst ` set ?es" by simp
  have emb: "getEmbeddedSitemap exampleHost (map_of ?es ''sitemap.xml'') ?opts
      = Inr [Entry (newEntry\<lparr>url := Some ''/foo/''\<rparr>)]"
    by code_simp
  from C4_default_includeSitemap [of noOptions ?es exampleHost "DateMs 0"] none listed
  have on: "opt_includeSitemap ?opts"
    and scan: "scanDir exampleHost ?opts (Dir (DateMs 0) (Some ?es))
      = getEmbeddedSitemap exampleHost (map_of ?es ''sitemap.xml'') ?opts"
    by blast+
  from scan emb have "scanDir exampleHost ?opts (Dir (DateMs 0) (Some ?es))
      = Inr [Entry (newEntry\<lparr>url := Some ''/foo/''\<rparr>)]"
    by (rule trans)
  with none listed on show ?thesis by blast
qed

text \<open>
  C4, as the claim states it, fails: the default of \<open>includeSitemap\<close> is not \<open>false\<close>.
  With a configuration that sets nothing, a directory with an \<open>index.html\<close> and a
  \<open>sitemap.xml\<close> gives the entry of the embedded document, and none for the index
  file.
\<close>

theorem C4_default_counterexample:
  "opt_includeSitemap (extend defaultOptions noOptions) = True
   \<and> generate exampleHost
        (Dir (DateMs 0) (Some [(''index.html'', page), (''sitemap.xml'', File (DateMs 0) (Some piDocument))]))
        noOptions
      = Inr \<lparr>items = [Entry (newEntry\<lparr>url := Some ''/foo/''\<rparr>)]\<rparr>"
  by code_simp

text \<open>
  C1: in the code, a processing instruction in an embedded document is not replaced by
  a scan of the directory. On the example site the generator gives the index entry of
  \<open>about\<close> and the static entry of the embedded document, and nothing for the pages
  under \<open>about/embedded-pi/a\<close>, which the test expects; with the short-circuit off the
  scan does find those pages. Were the marker in the item list, the rewriting of the
  items would fail on it.
\<close>

theorem C1_marker_not_expanded:
  "generate exampleHost sitePi (noOptions\<lparr>user_includeSitemap := Some True\<rparr>)
     = Inr \<lparr>items = [pageEntry ''/about/'', Entry (newEntry\<lparr>url := Some ''/about/embedded-pi/foo/''\<rparr>)]\<rparr>
   \<and> generate exampleHost sitePi (noOptions\<lparr>user_includeSitemap := Some False\<rparr>)
     = Inr \<lparr>items = [pageEntry ''/about/'', pageEntry ''/about/embedded-pi/a/include-it/'',
                      pageEntry ''/about/embedded-pi/a/'']\<rparr>
   \<and> rewriteItems (extend defaultOptions noOptions) [GENERATE_MAP] = Inl TypeError"
  by code_simp

section \<open>Properties of the writer\<close>

text \<open>
  C9: the text of an entry is the opening tag, \<open>loc\<close>, then \<open>changefreq\<close> when the
  change frequency is truthy, then \<open>priority\<close> when the priority is truthy and is not
  0.5, then \<open>lastmod\<close> (in the form of \<open>formatDate\<close>) when a modification date is
  there, then the closing tag, and nothing else. The elements are indented two spaces
  deeper than the entry when the entry is indented; the document writer indents its
  entries by two spaces, so their elements by four.
\<close>

theorem C9_entry_xml:
  "entryToXml h e indent =
     (let inner = (if indent = [] then [] else indent @ ''  '') in
      indent @ ''<url>'' @ newline
      @ inner @ ''<loc>'' @ (case url e of None \<Rightarrow> ''null'' | Some u \<Rightarrow> u) @ ''</loc>'' @ newline
      @ (if truthy (changeFrequency e)
         then inner @ ''<changefreq>'' @ ToString h (changeFrequency e) @ ''</changefreq>'' @ newline
         else [])
      @ (if truthy (getPriority e) \<and> getPriority e \<noteq> JNum (Fin (1 / 2))
         then inner @ ''<priority>'' @ ToString h (getPriority e) @ ''</priority>'' @ newline
         else [])
      @ (case getLastModified e of
           None \<Rightarrow> []
         | Some d \<Rightarrow> inner @ ''<lastmod>'' @ formatDate h d @ ''</lastmod>'' @ newline)
      @ indent @ ''</url>'')
   \<and> itemToXml h (Entry e) = Inr (entryToXml h e ''  '')"
  by (simp add: entryToXml_def Let_def DEFAULT_PRIORITY_def split: option.splits)

theorem C9_entry_xml_witness:
  "entryToXml exampleHost
     (newEntry\<lparr>url := Some ''/a'', changeFrequency := JStr ''daily'',
               priv_priority := JNum (Fin 1), priv_lastModified := Some (DateMs 0)\<rparr>) ''  ''
   = ''  <url>'' @ newline
     @ ''    <loc>/a</loc>'' @ newline
     @ ''    <changefreq>daily</changefreq>'' @ newline
     @ ''    <priority>1</priority>'' @ newline
     @ ''    <lastmod>1970-01-01T00:00:00Z</lastmod>'' @ newline
     @ ''  </url>''
   \<and> entryToXml exampleHost (newEntry\<lparr>url := Some ''/a''\<rparr>) ''  ''
   = ''  <url>'' @ newline @ ''    <loc>/a</loc>'' @ newline @ ''  </url>''"
proof -
  have fmt: "formatDate exampleHost (DateMs 0) = ''1970-01-01T00:00:00Z''" by code_simp
  have one: "isInteger 1" "showInt 1 = ''1''" by code_simp+
  show ?thesis
    using C9_entry_xml [of exampleHost
        "newEntry\<lparr>url := Some ''/a'', changeFrequency := JStr ''daily'',
                  priv_priority := JNum (Fin 1), priv_lastModified := Some (DateMs 0)\<rparr>" "''  ''"]
      C9_entry_xml [of exampleHost "newEntry\<lparr>url := Some ''/a''\<rparr>" "''  ''"]
    by (simp add: fmt one getPriority_def getLastModified_def newEntry_def newline_def
        DEFAULT_PRIORITY_def)
qed

section \<open>The embedded document\<close>

lemma not_word_colon: "\<not> isWordChar CHR '':''"
  by (simp add: isWordChar_def)

lemma reProto_iff_hasScheme: "reProto u \<longleftrightarrow> hasScheme u"
proof
  assume r: "reProto u"
  define w where "w = takeWhile isWordChar u"
  define d where "d = dropWhile isWordChar u"
  have u: "u = w @ d" by (simp add: w_def d_def)
  from r have "w \<noteq> []" by (simp add: reProto_def w_def)
  moreover from r obtain rest where "d = CHR '':'' # rest"
    by (auto simp: reProto_def d_def split: list.splits)
  moreover have "list_all isWordChar w"
    by (auto simp: w_def list_all_iff dest: set_takeWhileD)
  ultimately show "hasScheme u" unfolding hasScheme_def using u by blast
next
  assume "hasScheme u"
  then obtain w rest where u: "u = w @ CHR '':'' # rest" and ne: "w \<noteq> []"
    and all: "list_all isWordChar w"
    unfolding hasScheme_def by blast
  have "takeWhile isWordChar u = w"
    unfolding u using all not_word_colon by (simp add: list_all_iff)
  moreover have "dropWhile isWordChar u = CHR '':'' # rest"
    unfolding u using all not_word_colon by (simp add: dropWhile_append3 list_all_iff)
  ultimately show "reProto u" using ne by (simp add: reProto_def)
qed

lemma rewriteItems_each:
  assumes "list_all hasUrl xs"
  shows "\<exists>ys. rewriteItems opts xs = Inr ys \<and> length ys = length xs
    \<and> (\<forall>i < length ys. \<forall>e u. xs ! i = Entry e \<and> url e = Some u \<longrightarrow>
          ys ! i = (if hasScheme u then Entry e
                    else Entry (e\<lparr>url := Some (createUrl u (opt_prefix opts) False)\<rparr>)))"
  using assms
proof (induction xs)
  case Nil
  show ?case by simp
next
  case (Cons x xs)
  from Cons.prems obtain e u where x: "x = Entry e" and u: "url e = Some u"
    by (cases x) auto
  from Cons obtain ys where ys: "rewriteItems opts xs = Inr ys" and len: "length ys = length xs"
    and each: "\<And>i e u. i < length ys \<Longrightarrow> xs ! i = Entry e \<Longrightarrow> url e = Some u \<Longrightarrow>
          ys ! i = (if hasScheme u then Entry e
                    else Entry (e\<lparr>url := Some (createUrl u (opt_prefix opts) False)\<rparr>))"
    by auto
  define y where "y = (if hasScheme u then Entry e
                    else Entry (e\<lparr>url := Some (createUrl u (opt_prefix opts) False)\<rparr>))"
  have "rewriteItems opts (x # xs) = Inr (y # ys)"
    using x u ys by (simp add: y_def reProto_iff_hasScheme)
  moreover have "length (y # ys) = length (x # xs)" using len by simp
  moreover have "\<forall>i < length (y # ys). \<forall>e u. (x # xs) ! i = Entry e \<and> url e = Some u \<longrightarrow>
          (y # ys) ! i = (if hasScheme u then Entry e
                    else Entry (e\<lparr>url := Some (createUrl u (opt_prefix opts) False)\<rparr>))"
  proof (intro allI impI)
    fix i e' u'
    assume i: "i < length (y # ys)" and a: "(x # xs) ! i = Entry e' \<and> url e' = Some u'"
    show "(y # ys) ! i = (if hasScheme u' then Entry e'
                    else Entry (e'\<lparr>url := Some (createUrl u' (opt_prefix opts) False)\<rparr>))"
    proof (cases i)
      case 0
      with a x u show ?thesis by (simp add: y_def)
    next
      case (Suc j)
      with i a each [of j e' u'] show ?thesis by simp
    qed
  qed
  ultimately show ?case by blast
qed

lemma rewriteItems_no_url:
  "\<not> list_all hasUrl xs \<Longrightarrow> rewriteItems opts xs = Inl TypeError"
proof (induction xs)
  case Nil
  then show ?case by simp
next
  case (Cons x xs)
  show ?case
  proof (cases "hasUrl x")
    case True
    with Cons show ?thesis by (cases x) (auto split: sum.splits if_splits)
  next
    case False
    then show ?thesis by (cases x) auto
  qed
qed

lemma getEmbeddedSitemap_file:
  "Sitemap h (Other (JStr contents)) = Inr doc \<Longrightarrow>
   getEmbeddedSitemap h (Some (File mt (Some contents))) opts = rewriteItems opts (items doc)"
  by (simp add: getEmbeddedSitemap_def)

section \<open>The accepted date forms\<close>

lemma digits2: "digits 2 s \<longleftrightarrow> (\<exists>a b. s = [a, b] \<and> isDigit a \<and> isDigit b)"
  by (auto simp: digits_def length_Suc_conv eval_nat_numeral)

lemma digits4:
  "digits 4 s \<longleftrightarrow> (\<exists>a b c d. s = [a, b, c, d] \<and> isDigit a \<and> isDigit b \<and> isDigit c \<and> isDigit d)"
  by (auto simp: digits_def length_Suc_conv eval_nat_numeral)

lemma length_ge_split: "n \<le> length s \<Longrightarrow> \<exists>p r. s = p @ r \<and> length p = n"
  by (rule exI [of _ "take n s"], rule exI [of _ "drop n s"]) simp

lemma matchYear_iff: "matchYear s \<noteq> None \<longleftrightarrow> formYear s"
  by (simp add: matchYear_def formYear_def digits_def allDigits_def)

lemma matchYearMonth_iff: "matchYearMonth s \<noteq> None \<longleftrightarrow> formYearMonth s"
proof
  assume "matchYearMonth s \<noteq> None"
  then have len: "length s = 7" and c: "allDigits (take 4 s)" "s ! 4 = CHR ''-''" "allDigits (drop 5 s)"
    by (auto simp: matchYearMonth_def split: if_splits)
  from len obtain c0 c1 c2 c3 c4 c5 c6 where s: "s = [c0, c1, c2, c3, c4, c5, c6]"
    by (auto simp: length_Suc_conv eval_nat_numeral)
  from c have "s = [c0, c1, c2, c3] @ ''-'' @ [c5, c6] \<and> digits 4 [c0, c1, c2, c3] \<and> digits 2 [c5, c6]"
    unfolding s by (simp add: allDigits_def digits_def)
  then show "formYearMonth s" unfolding formYearMonth_def by blast
next
  assume "formYearMonth s"
  then show "matchYearMonth s \<noteq> None"
    by (auto simp: formYearMonth_def digits2 digits4 matchYearMonth_def allDigits_def)
qed

lemma matchYearMonthDay_iff: "matchYearMonthDay s \<noteq> None \<longleftrightarrow> formYearMonthDay s"
proof
  assume "matchYearMonthDay s \<noteq> None"
  then have len: "length s = 10"
    and c: "allDigits (take 4 s)" "s ! 4 = CHR ''-''" "allDigits (take 2 (drop 5 s))"
      "s ! 7 = CHR ''-''" "allDigits (drop 8 s)"
    by (auto simp: matchYearMonthDay_def split: if_splits)
  from len obtain c0 c1 c2 c3 c4 c5 c6 c7 c8 c9 where s: "s = [c0, c1, c2, c3, c4, c5, c6, c7, c8, c9]"
    by (auto simp: length_Suc_conv eval_nat_numeral)
  from c have "s = [c0, c1, c2, c3] @ ''-'' @ [c5, c6] @ ''-'' @ [c8, c9]
      \<and> digits 4 [c0, c1, c2, c3] \<and> digits 2 [c5, c6] \<and> digits 2 [c8, c9]"
    unfolding s by (simp add: allDigits_def digits_def)
  then show "formYearMonthDay s" unfolding formYearMonthDay_def by blast
next
  assume "formYearMonthDay s"
  then show "matchYearMonthDay s \<noteq> None"
    by (auto simp: formYearMonthDay_def digits2 digits4 matchYearMonthDay_def allDigits_def)
qed

lemma matchOffset_plus:
  "digits 2 hh \<Longrightarrow> digits 2 mm \<Longrightarrow> matchOffset (''+'' @ hh @ '':'' @ mm) = Some (CHR ''+'', hh, mm)"
  by (auto simp: digits2 matchOffset_def allDigits_def)

lemma matchOffset_minus:
  "digits 2 hh \<Longrightarrow> digits 2 mm \<Longrightarrow> matchOffset (''-'' @ hh @ '':'' @ mm) = Some (CHR ''-'', hh, mm)"
  by (auto simp: digits2 matchOffset_def allDigits_def)

lemma matchOffset_iff: "matchOffset z \<noteq> None \<longleftrightarrow> formOffset z"
proof
  assume "matchOffset z \<noteq> None"
  then have len: "length z = 6"
    and c: "z ! 0 = CHR ''+'' \<or> z ! 0 = CHR ''-''" "allDigits (take 2 (drop 1 z))"
      "z ! 3 = CHR '':''" "allDigits (drop 4 z)"
    by (auto simp: matchOffset_def split: if_splits)
  from len obtain c0 c1 c2 c3 c4 c5 where z: "z = [c0, c1, c2, c3, c4, c5]"
    by (auto simp: length_Suc_conv eval_nat_numeral)
  from c have "(z = ''+'' @ [c1, c2] @ '':'' @ [c4, c5] \<or> z = ''-'' @ [c1, c2] @ '':'' @ [c4, c5])
      \<and> digits 2 [c1, c2] \<and> digits 2 [c4, c5]"
    unfolding z by (auto simp: allDigits_def digits_def)
  then show "formOffset z" unfolding formOffset_def by blast
next
  assume "formOffset z"
  then show "matchOffset z \<noteq> None"
    unfolding formOffset_def using matchOffset_plus matchOffset_minus by fastforce
qed

lemma matchZone_iff: "matchZone z = Some z' \<longleftrightarrow> z' = z \<and> (z = ''Z'' \<or> formOffset z)"
  using matchOffset_iff [of z] by (cases "matchOffset z") (auto simp: matchZone_def)

lemma dropWhile_digits_zone:
  "list_all isDigit f \<Longrightarrow> z = ''Z'' \<or> formOffset z \<Longrightarrow> dropWhile isDigit (f @ z) = z"
  by (induction f) (auto simp: formOffset_def isDigit_def)

lemma takeWhile_digits_zone:
  "list_all isDigit f \<Longrightarrow> z = ''Z'' \<or> formOffset z \<Longrightarrow> takeWhile isDigit (f @ z) = f"
  by (induction f) (auto simp: formOffset_def isDigit_def)

text \<open>The groups of a string of the full form, read off its body.\<close>

lemma matchDateTime_body:
  assumes "formBody b"
  shows "\<exists>m. \<forall>z. z = ''Z'' \<or> formOffset z \<longrightarrow> matchDateTime (b @ z) = Some (m\<lparr>mZone := z\<rparr>)"
proof -
  from assms obtain y mo d hh mi t where
    b: "b = y @ ''-'' @ mo @ ''-'' @ d @ ''T'' @ hh @ '':'' @ mi @ t"
    and dg: "digits 4 y" "digits 2 mo" "digits 2 d" "digits 2 hh" "digits 2 mi"
    and t: "formSeconds t"
    unfolding formBody_def by blast
  from dg obtain y0 y1 y2 y3 m0 m1 d0 d1 h0 h1 i0 i1 where
    parts: "y = [y0, y1, y2, y3]" "mo = [m0, m1]" "d = [d0, d1]" "hh = [h0, h1]" "mi = [i0, i1]"
    and isd: "isDigit y0" "isDigit y1" "isDigit y2" "isDigit y3" "isDigit m0" "isDigit m1"
      "isDigit d0" "isDigit d1" "isDigit h0" "isDigit h1" "isDigit i0" "isDigit i1"
    unfolding digits2 digits4 by blast
  define m0' where "m0' = \<lparr> mYear = y, mMonth = mo, mDay = d, mHour = hh, mMinute = mi,
      mSecond = (if t = [] then None else Some (take 2 (drop 1 t))),
      mFraction = (if length t \<le> 3 then None else Some (drop 3 t)),
      mZone = [] \<rparr>"
  have "matchDateTime (b @ z) = Some (m0'\<lparr>mZone := z\<rparr>)" if z: "z = ''Z'' \<or> formOffset z" for z
  proof -
    from z have mz: "matchZone z = Some z" by (simp add: matchZone_iff)
    from z have znd: "z \<noteq> [] \<and> z ! 0 \<noteq> CHR '':'' \<and> z ! 0 \<noteq> CHR ''.'' \<and> \<not> isDigit (z ! 0)"
      by (auto simp: formOffset_def isDigit_def)
    from t consider "t = []" | ss where "t = '':'' @ ss" "digits 2 ss"
      | ss f where "t = '':'' @ ss @ ''.'' @ f" "digits 2 ss" "f \<noteq> []" "list_all isDigit f"
      unfolding formSeconds_def by blast
    then show ?thesis
    proof cases
      case 1
      with znd mz isd show ?thesis
        by (cases z) (simp_all add: matchDateTime_def b parts allDigits_def m0'_def Let_def)
    next
      case 2
      then obtain s0 s1 where ss: "ss = [s0, s1]" "isDigit s0" "isDigit s1"
        unfolding digits2 by blast
      with 2 znd mz isd show ?thesis
        by (cases z) (simp_all add: matchDateTime_def b parts allDigits_def m0'_def Let_def)
    next
      case 3
      then obtain s0 s1 where ss: "ss = [s0, s1]" "isDigit s0" "isDigit s1"
        unfolding digits2 by blast
      from 3 obtain f0 f' where f: "f = f0 # f'" "isDigit f0" "list_all isDigit f'"
        by (cases f) auto
      have dw: "dropWhile isDigit (f' @ z) = z" and tw: "takeWhile isDigit (f' @ z) = f'"
        using f(3) z by (simp_all add: dropWhile_digits_zone takeWhile_digits_zone)
      from 3 ss f mz isd show ?thesis
        by (simp add: matchDateTime_def b parts allDigits_def m0'_def Let_def dw tw)
    qed
  qed
  then show ?thesis by blast
qed

lemma matchDateTime_form:
  assumes "matchDateTime s \<noteq> None"
  shows "formDateTimeZ s \<or> formDateTimeOffset s"
proof -
  from assms have len: "16 \<le> length s" by (auto simp: matchDateTime_def split: if_splits)
  then obtain p r where pr: "s = p @ r" "length p = 16" using length_ge_split by blast
  from pr(2) obtain c0 c1 c2 c3 c4 c5 c6 c7 c8 c9 c10 c11 c12 c13 c14 c15 where
    p: "p = [c0, c1, c2, c3, c4, c5, c6, c7, c8, c9, c10, c11, c12, c13, c14, c15]"
    by (auto simp: length_Suc_conv eval_nat_numeral)
  define hasSec where "hasSec \<longleftrightarrow> 3 \<le> length r \<and> r ! 0 = CHR '':'' \<and> allDigits (take 2 (drop 1 r))"
  define r1 where "r1 = (if hasSec then drop 3 r else r)"
  define hasFrac where "hasFrac \<longleftrightarrow> hasSec \<and> 2 \<le> length r1 \<and> r1 ! 0 = CHR ''.'' \<and> isDigit (r1 ! 1)"
  define r2 where "r2 = (if hasFrac then dropWhile isDigit (drop 1 r1) else r1)"
  from assms have pre: "isDigit c0" "isDigit c1" "isDigit c2" "isDigit c3" "c4 = CHR ''-''"
      "isDigit c5" "isDigit c6" "c7 = CHR ''-''" "isDigit c8" "isDigit c9" "c10 = CHR ''T''"
      "isDigit c11" "isDigit c12" "c13 = CHR '':''" "isDigit c14" "isDigit c15"
    and zone: "matchZone r2 \<noteq> None"
    unfolding pr(1) p hasSec_def r1_def hasFrac_def r2_def
    by (auto simp: matchDateTime_def allDigits_def Let_def split: if_splits option.splits)
  from zone have z: "r2 = ''Z'' \<or> formOffset r2"
    using matchOffset_iff [of r2] by (auto simp: matchZone_def split: if_splits)
  have "\<exists>t. r = t @ r2 \<and> formSeconds t"
  proof (cases hasSec)
    case False
    then have "r = [] @ r2" by (simp add: r2_def hasFrac_def r1_def)
    then show ?thesis unfolding formSeconds_def by blast
  next
    case True
    then obtain a b where r: "r = CHR '':'' # a # b # r1" and ab: "isDigit a" "isDigit b"
      unfolding hasSec_def r1_def
      by (cases r; cases "tl r"; cases "tl (tl r)") (auto simp: allDigits_def)
    show ?thesis
    proof (cases hasFrac)
      case False
      with r ab have "r = ('':'' @ [a, b]) @ r2 \<and> digits 2 [a, b]"
        by (simp add: r2_def digits_def)
      then show ?thesis unfolding formSeconds_def by blast
    next
      case True
      then obtain d r1' where r1: "r1 = CHR ''.'' # d # r1'" and d: "isDigit d"
        unfolding hasFrac_def by (cases r1; cases "tl r1") auto
      define f where "f = takeWhile isDigit (d # r1')"
      have f: "f \<noteq> []" "list_all isDigit f"
        using d by (auto simp: f_def list_all_iff dest: set_takeWhileD)
      have "d # r1' = f @ r2"
        using True by (simp add: r2_def r1 f_def del: takeWhile.simps dropWhile.simps)
      with r r1 have "r = ('':'' @ [a, b] @ ''.'' @ f) @ r2" by simp
      with ab f show ?thesis unfolding formSeconds_def digits_def by fastforce
    qed
  qed
  then obtain t where t: "r = t @ r2" "formSeconds t" by blast
  define b where "b = p @ t"
  have "formBody b"
    unfolding formBody_def b_def
  proof (intro exI conjI)
    show "p @ t = [c0, c1, c2, c3] @ ''-'' @ [c5, c6] @ ''-'' @ [c8, c9] @ ''T'' @ [c11, c12]
        @ '':'' @ [c14, c15] @ t"
      using pre by (simp add: p)
  qed (use pre t in \<open>simp_all add: digits_def\<close>)
  moreover have "s = b @ r2" by (simp add: pr b_def t)
  ultimately show ?thesis using z unfolding formDateTimeZ_def formDateTimeOffset_def by blast
qed

lemma form_matchDateTime:
  assumes "formDateTimeZ s \<or> formDateTimeOffset s"
  shows "matchDateTime s \<noteq> None"
proof -
  from assms obtain b z where "s = b @ z" "formBody b" "z = ''Z'' \<or> formOffset z"
    unfolding formDateTimeZ_def formDateTimeOffset_def by blast
  with matchDateTime_body [of b] show ?thesis by auto
qed

lemma parseDate_matches:
  "(\<exists>d. parseDate h s = Inr d) \<longleftrightarrow>
     matchYear s \<noteq> None \<or> matchYearMonth s \<noteq> None \<or> matchYearMonthDay s \<noteq> None
     \<or> matchDateTime s \<noteq> None"
  by (auto simp: parseDate_def Let_def split: option.splits)

lemma parseDate_no_match:
  "matchYear s = None \<Longrightarrow> matchYearMonth s = None \<Longrightarrow> matchYearMonthDay s = None \<Longrightarrow>
   matchDateTime s = None \<Longrightarrow> parseDate h s = Inl (InvalidDateFormat s)"
  by (simp add: parseDate_def)

lemma parseDate_accepted: "(\<exists>d. parseDate h s = Inr d) \<longleftrightarrow> accepted s"
  unfolding parseDate_matches accepted_def
  using matchYear_iff [of s] matchYearMonth_iff [of s] matchYearMonthDay_iff [of s]
    matchDateTime_form [of s] form_matchDateTime [of s]
  by blast

lemma parseDate_not_accepted: "\<not> accepted s \<Longrightarrow> parseDate h s = Inl (InvalidDateFormat s)"
proof -
  assume "\<not> accepted s"
  then have "matchYear s = None" "matchYearMonth s = None" "matchYearMonthDay s = None"
    "matchDateTime s = None"
    unfolding accepted_def
    using matchYear_iff [of s] matchYearMonth_iff [of s] matchYearMonthDay_iff [of s]
      matchDateTime_form [of s]
    by blast+
  then show ?thesis by (rule parseDate_no_match)
qed

text \<open>A string of the full form matches none of the three shorter expressions.\<close>

lemma body_zone_long:
  assumes "formBody b" and "z \<noteq> []"
  shows "matchYear (b @ z) = None \<and> matchYearMonth (b @ z) = None
    \<and> matchYearMonthDay (b @ z) = None"
proof -
  from assms(1) have "16 \<le> length b" by (auto simp: formBody_def digits_def)
  with assms(2) have "16 < length (b @ z)" by (cases z) auto
  then show ?thesis by (simp add: matchYear_def matchYearMonth_def matchYearMonthDay_def)
qed

text \<open>
  The time that \<open>Date.UTC\<close> builds from the groups of a match, before the zone is
  looked at.
\<close>

lemma parseDate_zone:
  assumes "formBody b"
  shows "\<exists>T. parseDate h (b @ ''Z'') = Inr (newDateTime T)
    \<and> (\<forall>hh mm. digits 2 hh \<and> digits 2 mm \<longrightarrow>
          parseDate h (b @ ''+'' @ hh @ '':'' @ mm)
            = Inr (newDateTime (map_option (\<lambda>t. t - (num hh * 60 + num mm) * 60 * 1000) T))
          \<and> parseDate h (b @ ''-'' @ hh @ '':'' @ mm)
            = Inr (newDateTime (map_option (\<lambda>t. t + (num hh * 60 + num mm) * 60 * 1000) T)))"
proof -
  from matchDateTime_body [OF assms] obtain m where
    m: "\<And>z. z = ''Z'' \<or> formOffset z \<Longrightarrow> matchDateTime (b @ z) = Some (m\<lparr>mZone := z\<rparr>)"
    by blast
  define T where "T = DateUTC (num (mYear m)) (num (mMonth m) - 1) (num (mDay m))
      (num (mHour m)) (num (mMinute m)) (case mSecond m of None \<Rightarrow> 0 | Some sec \<Rightarrow> num sec)
      (fractionMs (mFraction m))"
  have general: "parseDate h (b @ z)
      = Inr (newDateTime (if z \<noteq> ''Z'' then map_option (\<lambda>t. t + offsetMs z) T else T))"
    if "z = ''Z'' \<or> formOffset z" for z
  proof -
    from that have "z \<noteq> []" by (auto simp: formOffset_def)
    with body_zone_long [OF assms] have short: "matchYear (b @ z) = None"
      "matchYearMonth (b @ z) = None" "matchYearMonthDay (b @ z) = None"
      by blast+
    show ?thesis by (simp add: parseDate_def short m [OF that] Let_def T_def)
  qed
  have "parseDate h (b @ ''Z'') = Inr (newDateTime T)"
    using general [of "''Z''"] by simp
  moreover have "parseDate h (b @ ''+'' @ hh @ '':'' @ mm)
        = Inr (newDateTime (map_option (\<lambda>t. t - (num hh * 60 + num mm) * 60 * 1000) T))"
    if "digits 2 hh \<and> digits 2 mm" for hh mm
  proof -
    from that have "formOffset (''+'' @ hh @ '':'' @ mm)" unfolding formOffset_def by blast
    from general [of "''+'' @ hh @ '':'' @ mm"] this that show ?thesis
      by (simp add: offsetMs_def matchOffset_plus [simplified] algebra_simps)
  qed
  moreover have "parseDate h (b @ ''-'' @ hh @ '':'' @ mm)
        = Inr (newDateTime (map_option (\<lambda>t. t + (num hh * 60 + num mm) * 60 * 1000) T))"
    if "digits 2 hh \<and> digits 2 mm" for hh mm
  proof -
    from that have "formOffset (''-'' @ hh @ '':'' @ mm)" unfolding formOffset_def by blast
    from general [of "''-'' @ hh @ '':'' @ mm"] this that show ?thesis
      by (simp add: offsetMs_def matchOffset_minus [simplified] algebra_simps)
  qed
  ultimately show ?thesis by blast
qed

text \<open>
  C8: \<open>parseDate\<close> returns a date exactly for the strings of the five accepted forms,
  and for every other string it fails with \<open>InvalidDateFormat\<close>. For a string of the
  full form, the offset is subtracted from the time built as if the fields were UTC: the
  same fields with zone \<open>Z\<close>, with \<open>+hh:mm\<close> and with \<open>-hh:mm\<close> give the time \<open>T\<close>,
  \<open>T\<close> less the offset and \<open>T\<close> plus the offset.
\<close>

theorem C8_parse_accepts:
  "(accepted s \<longrightarrow> (\<exists>d. parseDate h s = Inr d))
   \<and> (\<not> accepted s \<longrightarrow> parseDate h s = Inl (InvalidDateFormat s))
   \<and> (formBody b \<longrightarrow>
        (\<exists>T. parseDate h (b @ ''Z'') = Inr (newDateTime T)
           \<and> (\<forall>hh mm. digits 2 hh \<and> digits 2 mm \<longrightarrow>
                parseDate h (b @ ''+'' @ hh @ '':'' @ mm)
                  = Inr (newDateTime (map_option (\<lambda>t. t - (num hh * 60 + num mm) * 60 * 1000) T))
                \<and> parseDate h (b @ ''-'' @ hh @ '':'' @ mm)
                  = Inr (newDateTime (map_option (\<lambda>t. t + (num hh * 60 + num mm) * 60 * 1000) T)))))"
  using parseDate_accepted [of h s] parseDate_not_accepted [of s h] parseDate_zone [of b h]
  by blast

theorem C8_parse_accepts_witness:
  "accepted ''2026-11-02T01:30:00+01:30''
   \<and> (\<exists>d. parseDate utcHost ''2026-11-02T01:30:00+01:30'' = Inr d)
   \<and> \<not> accepted ''02.11.2026''
   \<and> parseDate utcHost ''02.11.2026'' = Inl (InvalidDateFormat ''02.11.2026'')
   \<and> formBody ''2026-11-02T01:30:00'' \<and> digits 2 ''01'' \<and> digits 2 ''30''
   \<and> parseDate utcHost ''2026-11-02T01:30:00Z'' = Inr (DateMs 1793583000000)
   \<and> parseDate utcHost ''2026-11-02T01:30:00+01:30'' = Inr (DateMs (1793583000000 - 5400000))
   \<and> parseDate utcHost ''2026-11-02T01:30:00-01:30'' = Inr (DateMs (1793583000000 + 5400000))"
proof -
  have p1: "parseDate utcHost ''2026-11-02T01:30:00+01:30'' = Inr (DateMs (1793583000000 - 5400000))"
    by code_simp
  have p2: "parseDate utcHost ''02.11.2026'' = Inl (InvalidDateFormat ''02.11.2026'')"
    by code_simp
  have p3: "parseDate utcHost ''2026-11-02T01:30:00Z'' = Inr (DateMs 1793583000000)"
    by code_simp
  have p4: "parseDate utcHost ''2026-11-02T01:30:00-01:30'' = Inr (DateMs (1793583000000 + 5400000))"
    by code_simp
  have acc: "accepted ''2026-11-02T01:30:00+01:30''"
    using p1 parseDate_accepted [of utcHost "''2026-11-02T01:30:00+01:30''"] by simp
  have nacc: "\<not> accepted ''02.11.2026''"
    using p2 parseDate_accepted [of utcHost "''02.11.2026''"] by simp
  have dg: "digits 2 ''01''" "digits 2 ''30''" "digits 2 ''00''" "digits 2 ''02''" "digits 2 ''11''"
    "digits 4 ''2026''"
    by (simp_all add: digits_def isDigit_def)
  have secs: "formSeconds '':00''"
    unfolding formSeconds_def using dg(3) by auto
  have body: "formBody ''2026-11-02T01:30:00''"
    unfolding formBody_def
    by (rule exI [of _ "''2026''"], rule exI [of _ "''11''"], rule exI [of _ "''02''"],
        rule exI [of _ "''01''"], rule exI [of _ "''30''"], rule exI [of _ "'':00''"])
      (simp add: dg secs)
  from C8_parse_accepts [of "''2026-11-02T01:30:00+01:30''" utcHost "''2026-11-02T01:30:00''"] acc
  have ex: "\<exists>d. parseDate utcHost ''2026-11-02T01:30:00+01:30'' = Inr d" by blast
  from C8_parse_accepts [of "''02.11.2026''" utcHost "''2026-11-02T01:30:00''"] nacc
  have "parseDate utcHost ''02.11.2026'' = Inl (InvalidDateFormat ''02.11.2026'')" by blast
  with acc ex nacc body dg(1,2) p1 p3 p4 show ?thesis by blast
qed

section \<open>The calendar\<close>

lemma yearDown_le: "DayFromYear (yearDown d y) \<le> d"
proof (induction d y rule: yearDown.induct)
  case (1 d y)
  then show ?case by (subst yearDown.simps) auto
qed

lemma yearUp_bounds:
  "DayFromYear y \<le> d \<Longrightarrow>
   DayFromYear (yearUp d y) \<le> d \<and> d < DayFromYear (yearUp d y + 1)"
proof (induction d y rule: yearUp.induct)
  case (1 d y)
  then show ?case by (subst (1 2) yearUp.simps) auto
qed

lemma YearFromDay_bounds:
  "DayFromYear (YearFromDay d) \<le> d \<and> d < DayFromYear (YearFromDay d + 1)"
  unfolding YearFromDay_def by (rule yearUp_bounds) (rule yearDown_le)

text \<open>A quotient by a positive constant, between two linear bounds.\<close>

lemma div_bounds: "0 < k \<Longrightarrow> k * (a div k) \<le> a \<and> a < k * (a div k) + k" for a k :: int
  using mult_div_mod_eq [of k a] pos_mod_bound [of k a] pos_mod_sign [of k a] by linarith

lemma DayFromYear_range:
  assumes "1000 \<le> y" and "y \<le> 10000"
  shows "- 400000 \<le> DayFromYear y \<and> DayFromYear y \<le> 3000000"
proof -
  define q4 where "q4 = (y - 1969) div 4"
  define q100 where "q100 = (y - 1901) div 100"
  define q400 where "q400 = (y - 1601) div 400"
  have b: "4 * q4 \<le> y - 1969" "y - 1969 < 4 * q4 + 4"
    "100 * q100 \<le> y - 1901" "y - 1901 < 100 * q100 + 100"
    "400 * q400 \<le> y - 1601" "y - 1601 < 400 * q400 + 400"
    unfolding q4_def q100_def q400_def using div_bounds by simp_all
  have "DayFromYear y = 365 * y - 719050 + q4 - q100 + q400"
    by (simp add: DayFromYear_def q4_def q100_def q400_def)
  with b assms show ?thesis by linarith
qed

lemma year_length: "DayFromYear (y + 1) - DayFromYear y \<le> 367"
proof -
  have a: "(y + 1 - 1969) div 4 \<le> (y - 1969) div 4 + 1" by linarith
  have b: "(y - 1901) div 100 \<le> (y + 1 - 1901) div 100" by (rule zdiv_mono1) simp_all
  have c: "(y + 1 - 1601) div 400 \<le> (y - 1601) div 400 + 1" by linarith
  show ?thesis unfolding DayFromYear_def using a b c by simp
qed

lemma DayWithinYear_range: "0 \<le> DayWithinYear t \<and> DayWithinYear t \<le> 366"
  using YearFromDay_bounds [of "Day t"] year_length [of "YearFromTime t"]
  by (simp add: DayWithinYear_def YearFromTime_def)

lemma monthStart_values:
  "monthStart l 0 = 0" "monthStart l 1 = 31"
  "monthStart l 2 = 59 + (if l then 1 else 0)" "monthStart l 3 = 90 + (if l then 1 else 0)"
  "monthStart l 4 = 120 + (if l then 1 else 0)" "monthStart l 5 = 151 + (if l then 1 else 0)"
  "monthStart l 6 = 181 + (if l then 1 else 0)" "monthStart l 7 = 212 + (if l then 1 else 0)"
  "monthStart l 8 = 243 + (if l then 1 else 0)" "monthStart l 9 = 273 + (if l then 1 else 0)"
  "monthStart l 10 = 304 + (if l then 1 else 0)" "monthStart l 11 = 334 + (if l then 1 else 0)"
  by (simp_all add: monthStart_def)

lemma MonthFromDay_range: "0 \<le> MonthFromDay l d \<and> MonthFromDay l d \<le> 11"
  by (simp add: MonthFromDay_def)

lemma MonthFromDay_date:
  "0 \<le> d \<Longrightarrow> d \<le> 366 \<Longrightarrow>
   1 \<le> d - monthStart l (MonthFromDay l d) + 1 \<and> d - monthStart l (MonthFromDay l d) + 1 \<le> 99"
  by (simp add: MonthFromDay_def monthStart_values)

lemma date_fields_range:
  "0 \<le> MonthFromTime t \<and> MonthFromTime t \<le> 11 \<and> 1 \<le> DateFromTime t \<and> DateFromTime t \<le> 99"
  using MonthFromDay_range [of "isLeapYear (YearFromTime t)" "DayWithinYear t"]
    MonthFromDay_date [of "DayWithinYear t" "isLeapYear (YearFromTime t)"]
    DayWithinYear_range [of t]
  by (simp add: MonthFromTime_def DateFromTime_def)

lemma time_fields_range:
  "0 \<le> HourFromTime t \<and> HourFromTime t < 24 \<and> 0 \<le> MinFromTime t \<and> MinFromTime t < 60
   \<and> 0 \<le> SecFromTime t \<and> SecFromTime t < 60"
  by (simp add: HourFromTime_def MinFromTime_def SecFromTime_def)

text \<open>The day and the time fields give back the time value, cut to the second.\<close>

lemma MakeDay_fields:
  assumes "100 \<le> YearFromTime t"
  shows "MakeDay (fullYear (YearFromTime t)) (MonthFromTime t) (DateFromTime t) = Day t"
proof -
  have m: "MonthFromTime t div 12 = 0" "MonthFromTime t mod 12 = MonthFromTime t"
    using date_fields_range [of t] by simp_all
  from assms have "fullYear (YearFromTime t) = YearFromTime t" by (simp add: fullYear_def)
  then show ?thesis
    by (simp add: MakeDay_def m Let_def DateFromTime_def DayWithinYear_def)
qed

lemma seconds_split:
  "(s div 86400) * 86400 + ((s div 3600) mod 24) * 3600 + ((s div 60) mod 60) * 60 + s mod 60 = s"
  for s :: int
proof -
  have a: "s = 60 * (s div 60) + s mod 60" by simp
  have b: "s div 60 = 60 * (s div 60 div 60) + (s div 60) mod 60" by simp
  have c: "s div 60 div 60 = 24 * (s div 60 div 60 div 24) + (s div 60 div 60) mod 24" by simp
  have d: "s div 3600 = s div 60 div 60" "s div 86400 = s div 60 div 60 div 24"
    by (simp_all add: zdiv_zmult2_eq)
  show ?thesis unfolding d using a b c by linarith
qed

lemma fields_of_seconds:
  "Day t = t div 1000 div 86400" "HourFromTime t = (t div 1000 div 3600) mod 24"
  "MinFromTime t = (t div 1000 div 60) mod 60" "SecFromTime t = (t div 1000) mod 60"
proof -
  have "t div 86400000 = t div 1000 div 86400" using zdiv_zmult2_eq [of 86400 t 1000] by simp
  then show "Day t = t div 1000 div 86400" by (simp add: Day_def msPerDay_def)
  have "t div 3600000 = t div 1000 div 3600" using zdiv_zmult2_eq [of 3600 t 1000] by simp
  then show "HourFromTime t = (t div 1000 div 3600) mod 24" by (simp add: HourFromTime_def)
  have "t div 60000 = t div 1000 div 60" using zdiv_zmult2_eq [of 60 t 1000] by simp
  then show "MinFromTime t = (t div 1000 div 60) mod 60" by (simp add: MinFromTime_def)
  show "SecFromTime t = (t div 1000) mod 60" by (simp add: SecFromTime_def)
qed

lemma MakeDate_fields:
  assumes "100 \<le> YearFromTime t"
  shows "MakeDate (MakeDay (fullYear (YearFromTime t)) (MonthFromTime t) (DateFromTime t))
      (MakeTime (HourFromTime t) (MinFromTime t) (SecFromTime t) 0) = t - t mod 1000"
proof -
  have "t - t mod 1000 = 1000 * (t div 1000)"
    using mult_div_mod_eq [of 1000 t] by linarith
  also have "\<dots> = 1000 * ((t div 1000 div 86400) * 86400 + ((t div 1000 div 3600) mod 24) * 3600
      + ((t div 1000 div 60) mod 60) * 60 + (t div 1000) mod 60)"
    by (simp only: seconds_split)
  finally show ?thesis
    by (simp add: MakeDate_def MakeDay_fields [OF assms] MakeTime_def msPerDay_def
        fields_of_seconds)
qed

lemma getters_whole_second:
  "Day (t - t mod 1000) = Day t" "HourFromTime (t - t mod 1000) = HourFromTime t"
  "MinFromTime (t - t mod 1000) = MinFromTime t" "SecFromTime (t - t mod 1000) = SecFromTime t"
proof -
  have "t - t mod 1000 = 1000 * (t div 1000)"
    using mult_div_mod_eq [of 1000 t] by linarith
  then have "(t - t mod 1000) div 1000 = t div 1000" by simp
  then show "Day (t - t mod 1000) = Day t" "HourFromTime (t - t mod 1000) = HourFromTime t"
    "MinFromTime (t - t mod 1000) = MinFromTime t" "SecFromTime (t - t mod 1000) = SecFromTime t"
    by (simp_all only: fields_of_seconds)
qed

lemma date_getters_whole_second:
  "YearFromTime (t - t mod 1000) = YearFromTime t"
  "MonthFromTime (t - t mod 1000) = MonthFromTime t"
  "DateFromTime (t - t mod 1000) = DateFromTime t"
  by (simp_all add: YearFromTime_def MonthFromTime_def DateFromTime_def DayWithinYear_def
      getters_whole_second)

section \<open>Decimal text\<close>

lemma isDigit_digitChar: "d < 10 \<Longrightarrow> isDigit (digitChar d)"
proof -
  assume "d < 10"
  then have "d = 0 \<or> d = 1 \<or> d = 2 \<or> d = 3 \<or> d = 4 \<or> d = 5 \<or> d = 6 \<or> d = 7 \<or> d = 8 \<or> d = 9"
    by arith
  moreover have "isDigit (digitChar 0)" "isDigit (digitChar 1)" "isDigit (digitChar 2)"
    "isDigit (digitChar 3)" "isDigit (digitChar 4)" "isDigit (digitChar 5)"
    "isDigit (digitChar 6)" "isDigit (digitChar 7)" "isDigit (digitChar 8)"
    "isDigit (digitChar 9)"
    by code_simp+
  ultimately show ?thesis by blast
qed

lemma digitVal_digitChar: "d < 10 \<Longrightarrow> digitVal (digitChar d) = d"
  by (simp add: digitVal_def digitChar_def)

lemma digitsToNat_snoc: "digitsToNat (s @ [c]) = 10 * digitsToNat s + digitVal c"
  by (simp add: digitsToNat_def)

lemma showNat_digits: "list_all isDigit (showNat n)"
proof (induction n rule: showNat.induct)
  case (1 n)
  then show ?case by (subst showNat.simps) (simp add: isDigit_digitChar)
qed

lemma digitsToNat_showNat: "digitsToNat (showNat n) = n"
proof (induction n rule: showNat.induct)
  case (1 n)
  show ?case
  proof (cases "n < 10")
    case True
    then show ?thesis
      by (subst showNat.simps) (simp add: digitsToNat_def digitVal_digitChar)
  next
    case False
    with 1 show ?thesis
      by (subst showNat.simps) (simp add: digitsToNat_snoc digitVal_digitChar)
  qed
qed

lemma length_showNat_1: "n < 10 \<Longrightarrow> length (showNat n) = 1"
  by (subst showNat.simps) simp

lemma length_showNat_2: "10 \<le> n \<Longrightarrow> n < 100 \<Longrightarrow> length (showNat n) = 2"
  by (subst showNat.simps) (simp add: length_showNat_1)

lemma length_showNat_3: "100 \<le> n \<Longrightarrow> n < 1000 \<Longrightarrow> length (showNat n) = 3"
  by (subst showNat.simps) (simp add: length_showNat_2)

lemma length_showNat_4: "1000 \<le> n \<Longrightarrow> n < 10000 \<Longrightarrow> length (showNat n) = 4"
  by (subst showNat.simps) (simp add: length_showNat_3)

lemma digitsToNat_zero: "digitsToNat (CHR ''0'' # s) = digitsToNat s"
  by (simp add: digitsToNat_def digitVal_def)

lemma numberToString_int:
  "0 \<le> n \<Longrightarrow> n < 10000 \<Longrightarrow> numberToString h (Fin (of_int n)) = showNat (nat n)"
proof -
  assume n: "0 \<le> n" "n < 10000"
  have "\<bar>(of_int n :: rat)\<bar> < 10 ^ 21"
  proof -
    have "\<bar>(of_int n :: rat)\<bar> = of_int n" using n by simp
    also have "\<dots> < of_int 10000" using n by (simp only: of_int_less_iff)
    also have "\<dots> < 10 ^ 21" by simp
    finally show ?thesis .
  qed
  then show ?thesis using n by (simp add: isInteger_def showInt_def)
qed

text \<open>A field from 0 to 99 is written with two digits, a year from 1000 to 9999 with four.\<close>

lemma pad_two:
  assumes "0 \<le> n" and "n < 100"
  shows "digits 2 (pad h (Fin (of_int n))) \<and> num (pad h (Fin (of_int n))) = n"
proof (cases "n < 10")
  case True
  with assms have "pad h (Fin (of_int n)) = CHR ''0'' # showNat (nat n)"
    by (simp add: pad_def numberToString_int del: numberToString.simps)
  moreover from True assms have "length (showNat (nat n)) = 1" by (simp add: length_showNat_1)
  ultimately show ?thesis
    using assms by (simp add: digits_def num_def digitsToNat_zero digitsToNat_showNat
        showNat_digits isDigit_def)
next
  case False
  with assms have "pad h (Fin (of_int n)) = showNat (nat n)"
    by (simp add: pad_def numberToString_int del: numberToString.simps)
  moreover from False assms have "length (showNat (nat n)) = 2" by (simp add: length_showNat_2)
  ultimately show ?thesis
    using assms by (simp add: digits_def num_def digitsToNat_showNat showNat_digits)
qed

lemma year_four:
  assumes "1000 \<le> y" and "y \<le> 9999"
  shows "digits 4 (numberToString h (Fin (of_int y))) \<and> num (numberToString h (Fin (of_int y))) = y"
proof -
  from assms have "numberToString h (Fin (of_int y)) = showNat (nat y)"
    by (simp add: numberToString_int del: numberToString.simps)
  moreover from assms have "length (showNat (nat y)) = 4" by (simp add: length_showNat_4)
  ultimately show ?thesis
    using assms by (simp add: digits_def num_def digitsToNat_showNat showNat_digits)
qed

section \<open>The round trip of the date codec\<close>

lemma matchDateTime_seconds_Z:
  assumes "digits 4 y" "digits 2 mo" "digits 2 d" "digits 2 hh" "digits 2 mi" "digits 2 ss"
  shows "matchDateTime (y @ ''-'' @ mo @ ''-'' @ d @ ''T'' @ hh @ '':'' @ mi @ '':'' @ ss @ ''Z'')
    = Some \<lparr> mYear = y, mMonth = mo, mDay = d, mHour = hh, mMinute = mi, mSecond = Some ss,
             mFraction = None, mZone = ''Z'' \<rparr>"
proof -
  from assms obtain y0 y1 y2 y3 m0 m1 d0 d1 h0 h1 i0 i1 s0 s1 where
    parts: "y = [y0, y1, y2, y3]" "mo = [m0, m1]" "d = [d0, d1]" "hh = [h0, h1]" "mi = [i0, i1]"
      "ss = [s0, s1]"
    and isd: "isDigit y0" "isDigit y1" "isDigit y2" "isDigit y3" "isDigit m0" "isDigit m1"
      "isDigit d0" "isDigit d1" "isDigit h0" "isDigit h1" "isDigit i0" "isDigit i1"
      "isDigit s0" "isDigit s1"
    unfolding digits2 digits4 by blast
  show ?thesis
    using isd by (simp add: parts matchDateTime_def allDigits_def Let_def matchZone_def)
qed

lemma parseDate_seconds_Z:
  assumes "digits 4 y" "digits 2 mo" "digits 2 d" "digits 2 hh" "digits 2 mi" "digits 2 ss"
  shows "parseDate h (y @ ''-'' @ mo @ ''-'' @ d @ ''T'' @ hh @ '':'' @ mi @ '':'' @ ss @ ''Z'')
    = Inr (newDateTime (DateUTC (num y) (num mo - 1) (num d) (num hh) (num mi) (num ss) (Fin 0)))"
proof -
  let ?s = "y @ ''-'' @ mo @ ''-'' @ d @ ''T'' @ hh @ '':'' @ mi @ '':'' @ ss @ ''Z''"
  from assms have "length ?s = 20" by (simp add: digits_def)
  then have short: "matchYear ?s = None" "matchYearMonth ?s = None" "matchYearMonthDay ?s = None"
    by (simp_all only: matchYear_def matchYearMonth_def matchYearMonthDay_def) simp_all
  have zero: "fractionMs None = Fin 0"
  proof -
    have "parseFloat ''0'' = Fin 0" by code_simp
    then show ?thesis by (simp add: fractionMs_def)
  qed
  show ?thesis
    by (simp only: parseDate_def short matchDateTime_seconds_Z [OF assms] option.case Let_def
        dateTimeMatch.simps zero) simp
qed

lemma whole_second_in_range:
  assumes "1000 \<le> YearFromTime t" and "YearFromTime t \<le> 9999"
  shows "\<bar>t - t mod 1000\<bar> \<le> 8640000000000000"
proof -
  have d: "DayFromYear (YearFromTime t) \<le> Day t" "Day t < DayFromYear (YearFromTime t + 1)"
    using YearFromDay_bounds [of "Day t"] by (simp_all add: YearFromTime_def)
  have lo: "- 400000 \<le> DayFromYear (YearFromTime t)"
    using DayFromYear_range [of "YearFromTime t"] assms by simp
  have hi: "DayFromYear (YearFromTime t + 1) \<le> 3000000"
    using DayFromYear_range [of "YearFromTime t + 1"] assms by simp
  have t: "t = 86400000 * Day t + t mod 86400000" "0 \<le> t mod 86400000" "t mod 86400000 < 86400000"
    by (simp_all add: Day_def msPerDay_def)
  have m: "0 \<le> t mod 1000" "t mod 1000 < 1000" by simp_all
  from d lo hi have "- 400000 \<le> Day t" "Day t < 3000000" by linarith+
  with t m show ?thesis by linarith
qed

lemma DateUTC_fields:
  assumes "1000 \<le> YearFromTime t" and "YearFromTime t \<le> 9999"
  shows "DateUTC (YearFromTime t) (MonthFromTime t) (DateFromTime t) (HourFromTime t)
      (MinFromTime t) (SecFromTime t) (Fin 0) = Some (t - t mod 1000)"
proof -
  from assms have "100 \<le> YearFromTime t" by simp
  from MakeDate_fields [OF this] whole_second_in_range [OF assms] show ?thesis
    by (simp add: DateUTC_def toInteger_def TimeClip_def)
qed

lemma formatDate_whole_second:
  "formatDate h (DateMs (t - t mod 1000)) = formatDate h (DateMs t)"
  by (simp add: formatDate_def getters_whole_second date_getters_whole_second
      del: numberToString.simps)

text \<open>The text of a date whose year has four digits, with its fields.\<close>

lemma formatDate_shape:
  assumes "1000 \<le> YearFromTime t" and "YearFromTime t \<le> 9999"
  shows "\<exists>y mo d hh mi ss.
      formatDate h (DateMs t) = y @ ''-'' @ mo @ ''-'' @ d @ ''T'' @ hh @ '':'' @ mi @ '':'' @ ss @ ''Z''
      \<and> digits 4 y \<and> digits 2 mo \<and> digits 2 d \<and> digits 2 hh \<and> digits 2 mi \<and> digits 2 ss
      \<and> num y = YearFromTime t \<and> num mo = MonthFromTime t + 1 \<and> num d = DateFromTime t
      \<and> num hh = HourFromTime t \<and> num mi = MinFromTime t \<and> num ss = SecFromTime t"
proof -
  note df = date_fields_range [of t] and tf = time_fields_range [of t]
  have mo: "jsAdd (Fin (of_int (MonthFromTime t))) (Fin 1) = Fin (of_int (MonthFromTime t + 1))"
    by simp
  have "formatDate h (DateMs t)
      = numberToString h (Fin (of_int (YearFromTime t))) @ ''-''
        @ pad h (Fin (of_int (MonthFromTime t + 1))) @ ''-''
        @ pad h (Fin (of_int (DateFromTime t))) @ ''T''
        @ pad h (Fin (of_int (HourFromTime t))) @ '':''
        @ pad h (Fin (of_int (MinFromTime t))) @ '':''
        @ pad h (Fin (of_int (SecFromTime t))) @ ''Z''"
    by (simp add: formatDate_def mo del: numberToString.simps jsAdd.simps of_int_add)
  moreover have "digits 4 (numberToString h (Fin (of_int (YearFromTime t))))
      \<and> num (numberToString h (Fin (of_int (YearFromTime t)))) = YearFromTime t"
    using assms by (rule year_four)
  moreover have "digits 2 (pad h (Fin (of_int (MonthFromTime t + 1))))
      \<and> num (pad h (Fin (of_int (MonthFromTime t + 1)))) = MonthFromTime t + 1"
    using df by (intro pad_two) simp_all
  moreover have "digits 2 (pad h (Fin (of_int (DateFromTime t))))
      \<and> num (pad h (Fin (of_int (DateFromTime t)))) = DateFromTime t"
    using df by (intro pad_two) simp_all
  moreover have "digits 2 (pad h (Fin (of_int (HourFromTime t))))
      \<and> num (pad h (Fin (of_int (HourFromTime t)))) = HourFromTime t"
    using tf by (intro pad_two) simp_all
  moreover have "digits 2 (pad h (Fin (of_int (MinFromTime t))))
      \<and> num (pad h (Fin (of_int (MinFromTime t)))) = MinFromTime t"
    using tf by (intro pad_two) simp_all
  moreover have "digits 2 (pad h (Fin (of_int (SecFromTime t))))
      \<and> num (pad h (Fin (of_int (SecFromTime t)))) = SecFromTime t"
    using tf by (intro pad_two) simp_all
  ultimately show ?thesis by blast
qed

lemma parseDate_formatDate:
  assumes "1000 \<le> YearFromTime t" and "YearFromTime t \<le> 9999"
  shows "parseDate h (formatDate h (DateMs t)) = Inr (DateMs (t - t mod 1000))"
proof -
  from formatDate_shape [OF assms, of h] obtain y mo d hh mi ss where
    f: "formatDate h (DateMs t) = y @ ''-'' @ mo @ ''-'' @ d @ ''T'' @ hh @ '':'' @ mi @ '':'' @ ss @ ''Z''"
    and dg: "digits 4 y" "digits 2 mo" "digits 2 d" "digits 2 hh" "digits 2 mi" "digits 2 ss"
    and n: "num y = YearFromTime t" "num mo = MonthFromTime t + 1" "num d = DateFromTime t"
      "num hh = HourFromTime t" "num mi = MinFromTime t" "num ss = SecFromTime t"
    by blast
  have "parseDate h (formatDate h (DateMs t))
      = Inr (newDateTime (DateUTC (num y) (num mo - 1) (num d) (num hh) (num mi) (num ss) (Fin 0)))"
    unfolding f by (rule parseDate_seconds_Z [OF dg])
  also have "\<dots> = Inr (newDateTime (Some (t - t mod 1000)))"
    by (simp add: n DateUTC_fields [OF assms])
  also have "\<dots> = Inr (DateMs (t - t mod 1000))"
    using whole_second_in_range [OF assms] by (simp add: newDateTime_def TimeClip_def)
  finally show ?thesis .
qed

text \<open>
  C7, as the code has it: for a date whose UTC year is from 1000 to 9999, the text of
  \<open>formatDate\<close> is \<open>YYYY-MM-DDThh:mm:ssZ\<close> with the UTC fields of the date;
  \<open>parseDate\<close> reads it back as the same instant cut to the whole second; and the text
  of that date is the same text. (A year outside that range is not written with four
  digits.)
\<close>

theorem C7_format_round_trip:
  assumes "1000 \<le> YearFromTime t" and "YearFromTime t \<le> 9999"
  shows "parseDate h (formatDate h (DateMs t)) = Inr (DateMs (t - t mod 1000))
    \<and> formatDate h (DateMs (t - t mod 1000)) = formatDate h (DateMs t)
    \<and> (case parseDate h (formatDate h (DateMs t)) of
          Inl err \<Rightarrow> False
        | Inr d \<Rightarrow> formatDate h d = formatDate h (DateMs t))
    \<and> (\<exists>y mo d hh mi ss.
          formatDate h (DateMs t)
            = y @ ''-'' @ mo @ ''-'' @ d @ ''T'' @ hh @ '':'' @ mi @ '':'' @ ss @ ''Z''
          \<and> digits 4 y \<and> digits 2 mo \<and> digits 2 d \<and> digits 2 hh \<and> digits 2 mi \<and> digits 2 ss
          \<and> num y = YearFromTime t \<and> num mo = MonthFromTime t + 1 \<and> num d = DateFromTime t
          \<and> num hh = HourFromTime t \<and> num mi = MinFromTime t \<and> num ss = SecFromTime t)"
  using parseDate_formatDate [OF assms, of h] formatDate_whole_second [of h t]
    formatDate_shape [OF assms, of h]
  by simp

theorem C7_format_round_trip_witness:
  "1000 \<le> YearFromTime 1793577600123 \<and> YearFromTime 1793577600123 \<le> 9999
   \<and> formatDate utcHost (DateMs 1793577600123) = ''2026-11-02T00:00:00Z''
   \<and> parseDate utcHost (formatDate utcHost (DateMs 1793577600123)) = Inr (DateMs 1793577600000)
   \<and> formatDate utcHost (DateMs 1793577600000) = formatDate utcHost (DateMs 1793577600123)"
proof -
  have y: "YearFromTime 1793577600123 = 2026" by code_simp
  have f: "formatDate utcHost (DateMs 1793577600123) = ''2026-11-02T00:00:00Z''" by code_simp
  have m: "(1793577600123 :: int) - 1793577600123 mod 1000 = 1793577600000" by simp
  from y have a: "1000 \<le> YearFromTime 1793577600123" and b: "YearFromTime 1793577600123 \<le> 9999"
    by simp_all
  from C7_format_round_trip [OF a b, of utcHost] f a b show ?thesis
    by (simp add: m)
qed

text \<open>
  C7, as the claim states it, fails: the last second of the year 999 is written with a
  year of three digits, which is not of the form \<open>YYYY-MM-DDThh:mm:ssZ\<close>, and
  \<open>parseDate\<close> rejects that text.
\<close>

theorem C7_year_999_counterexample:
  "YearFromTime (- 30610224001000) = 999
   \<and> formatDate utcHost (DateMs (- 30610224001000)) = ''999-12-31T23:59:59Z''
   \<and> parseDate utcHost (formatDate utcHost (DateMs (- 30610224001000)))
       = Inl (InvalidDateFormat ''999-12-31T23:59:59Z'')"
  by code_simp

section \<open>The priority of every entry\<close>

lemma setLastModified_priority:
  "setLastModified h v e = Inr e' \<Longrightarrow> priv_priority e' = priv_priority e"
  by (cases v) (auto split: sum.splits)

lemma readChild_valid:
  assumes "validPriority (priv_priority e)" and "readChild h e c = Inr e'"
  shows "validPriority (priv_priority e')"
proof (cases "nname c")
  case None
  with assms show ?thesis by (simp add: readChild_def)
next
  case (Some name)
  consider "name = ''loc''" | "name = ''lastmod''" | "name = ''changefreq''" | "name = ''priority''"
    | "name \<notin> {''loc'', ''lastmod'', ''changefreq'', ''priority''}"
    by blast
  then show ?thesis
  proof cases
    case 2
    with Some assms(2) have "setLastModified h (JStr (innerText c)) e = Inr e'"
      by (simp add: readChild_def del: setLastModified.simps)
    from setLastModified_priority [OF this] assms(1) show ?thesis by simp
  next
    case 4
    with Some assms(2) have "setPriority h (JStr (innerText c)) e = Inr e'"
      by (simp add: readChild_def)
    from setPriority_valid [OF assms(1) this] show ?thesis .
  qed (use Some assms in \<open>auto simp: readChild_def\<close>)
qed

lemma readChildren_valid:
  "validPriority (priv_priority e) \<Longrightarrow> readChildren h e cs = Inr e' \<Longrightarrow>
   validPriority (priv_priority e')"
proof (induction cs arbitrary: e)
  case Nil
  then show ?case by simp
next
  case (Cons c cs)
  then show ?case by (auto split: sum.splits dest: readChild_valid)
qed

lemma newEntry_valid: "validPriority (priv_priority newEntry)"
  by (simp add: newEntry_def DEFAULT_PRIORITY_def)

lemma newEntryFromNode_valid:
  "newEntryFromNode h n = Inr e \<Longrightarrow> validPriority (priv_priority e)"
  unfolding newEntryFromNode_def readNode_def
  using newEntry_valid by (rule readChildren_valid)

lemma parseUrlsetChildren_valid:
  "list_all validItem out \<Longrightarrow> parseUrlsetChildren h n out cs = Inr xs \<Longrightarrow>
   list_all validItem xs"
proof (induction cs arbitrary: out)
  case Nil
  then show ?case by simp
next
  case (Cons c cs)
  show ?case
  proof (cases "nname c = Some ''url''")
    case True
    with Cons.prems(2) obtain e where e: "newEntryFromNode h c = Inr e"
      and rest: "parseUrlsetChildren h n (out @ [Entry e]) cs = Inr xs"
      by (auto split: sum.splits)
    from newEntryFromNode_valid [OF e] Cons.prems(1)
    have "list_all validItem (out @ [Entry e])" by simp
    from Cons.IH [OF this rest] show ?thesis .
  next
    case False
    show ?thesis
    proof (cases "ntype n = ''pi''")
      case True
      with False Cons.prems(2)
      have rest: "parseUrlsetChildren h n (out @ [GENERATE_MAP]) cs = Inr xs" by simp
      from Cons.prems(1) have "list_all validItem (out @ [GENERATE_MAP])" by simp
      from Cons.IH [OF this rest] show ?thesis .
    next
      case notPi: False
      with False Cons.prems(2) have "parseUrlsetChildren h n out cs = Inr xs" by simp
      from Cons.IH [OF Cons.prems(1) this] show ?thesis .
    qed
  qed
qed

lemma parseTopLevel_valid:
  "list_all validItem result \<Longrightarrow> parseTopLevel h result ns = Inr xs \<Longrightarrow>
   list_all validItem xs"
proof (induction ns arbitrary: result)
  case Nil
  then show ?case by simp
next
  case (Cons n ns)
  show ?case
  proof (cases "nname n = Some ''urlset''")
    case False
    with Cons.prems(2) have "parseTopLevel h result ns = Inr xs" by simp
    from Cons.IH [OF Cons.prems(1) this] show ?thesis .
  next
    case True
    with Cons.prems(2) obtain ys where ys: "parseUrlsetNode h n = Inr ys"
      and rest: "parseTopLevel h (result @ ys) ns = Inr xs"
      by (auto split: sum.splits)
    from ys have ys': "parseUrlsetChildren h n [] (nchildren n) = Inr ys"
      by (simp add: parseUrlsetNode_def)
    have "list_all validItem ys"
      by (rule parseUrlsetChildren_valid [OF _ ys']) simp
    with Cons.prems(1) have "list_all validItem (result @ ys)" by simp
    from Cons.IH [OF this rest] show ?thesis .
  qed
qed

lemma parseSitemap_valid: "parseSitemap h s = Inr xs \<Longrightarrow> list_all validItem xs"
  unfolding parseSitemap_def by (rule parseTopLevel_valid [of "[]"]) simp_all

lemma Sitemap_string_valid:
  "Sitemap h (Other (JStr s)) = Inr doc \<Longrightarrow> list_all validItem (items doc)"
proof (cases "s = []")
  case True
  assume "Sitemap h (Other (JStr s)) = Inr doc"
  with True show ?thesis by (auto simp: Sitemap_def)
next
  case False
  assume "Sitemap h (Other (JStr s)) = Inr doc"
  with False show ?thesis
    by (auto simp: Sitemap_string split: sum.splits dest: parseSitemap_valid)
qed

lemma rewriteItem_valid: "validItem x \<Longrightarrow> rewriteItem opts x = Inr y \<Longrightarrow> validItem y"
  by (cases x) (auto split: option.splits if_splits)

lemma rewriteItems_valid:
  "list_all validItem xs \<Longrightarrow> rewriteItems opts xs = Inr ys \<Longrightarrow> list_all validItem ys"
proof (induction xs arbitrary: ys)
  case Nil
  then show ?case by simp
next
  case (Cons x xs)
  then show ?case by (auto split: sum.splits dest: rewriteItem_valid)
qed

lemma getEmbeddedSitemap_valid:
  "getEmbeddedSitemap h file opts = Inr xs \<Longrightarrow> list_all validItem xs"
  by (auto simp: getEmbeddedSitemap_def
      split: option.splits fsnode.splits sum.splits
      dest: Sitemap_string_valid rewriteItems_valid)

lemma createSitemapEntry_valid:
  "createSitemapEntry h entry opts st isFile = Inr e \<Longrightarrow> validPriority (priv_priority e)"
proof -
  assume c: "createSitemapEntry h entry opts st isFile = Inr e"
  define u where "u = createUrl entry (opt_prefix opts) isFile"
  define e2 where "e2 = newEntry\<lparr>url := Some u,
      changeFrequency := callIfFn (opt_changeFrequency opts) u st entry\<rparr>"
  have v2: "validPriority (priv_priority e2)" by (simp add: e2_def newEntry_valid)
  from c obtain e3 where p: "setPriority h (callIfFn (opt_priority opts) u st entry) e2 = Inr e3"
    and l: "setLastModified h (JDate (mtime st)) e3 = Inr e
      \<or> setLastModified h (callIfFn (opt_lastModified opts) u st entry) e3 = Inr e"
    by (auto simp: createSitemapEntry_def Let_def u_def e2_def split: sum.splits if_splits)
  from setPriority_valid [OF v2 p] have "validPriority (priv_priority e3)" .
  with l show ?thesis by (auto dest: setLastModified_priority)
qed

lemma scan_valid:
  shows "scanDir h opts node = Inr xs \<Longrightarrow> list_all validItem xs"
    and "list_all validItem result \<Longrightarrow> nextEntry h opts es result entries = Inr ys \<Longrightarrow>
         list_all validItem ys"
proof (induction h opts node and h opts es result entries arbitrary: xs and ys
    rule: scanDir_nextEntry.induct)
  case (1 h opts mt es)
  show ?case
  proof (cases "opt_includeSitemap opts
      \<and> ''sitemap.xml'' \<in> set (filterEntries (map fst es) (opt_ext opts) (opt_includeSitemap opts))")
    case True
    with "1.prems" have "getEmbeddedSitemap h (map_of es ''sitemap.xml'') opts = Inr xs"
      by (auto simp: scanDir.simps Let_def split: if_splits)
    then show ?thesis by (rule getEmbeddedSitemap_valid)
  next
    case False
    with "1.prems" have "nextEntry h opts es []
        (filterEntries (map fst es) (opt_ext opts) (opt_includeSitemap opts)) = Inr xs"
      by (simp add: scanDir.simps Let_def)
    with "1.IH" [OF refl False] show ?thesis by simp
  qed
next
  case (6 h opts es result)
  then show ?case by (simp add: nextEntry.simps)
next
  case (7 h opts es result entry entries)
  note r = "7.prems"(1) and n = "7.prems"(2)
  from n obtain st child where s: "statEntry es entry = Some (st, child)"
    by (auto simp: nextEntry.simps split: option.splits)
  show ?case
  proof (cases "stat_isFile st")
    case True
    with n s obtain sme where
      c: "(if (case opt_index opts of None \<Rightarrow> False | Some ix \<Rightarrow> entry \<in> set ix)
           then createSitemapEntry h [] opts st True
           else createSitemapEntry h entry opts st False) = Inr sme"
      and rest: "nextEntry h opts es (result @ [Entry sme]) entries = Inr ys"
      by (auto simp: nextEntry.simps split: sum.splits)
    from c have "validPriority (priv_priority sme)"
      by (auto split: if_splits dest: createSitemapEntry_valid)
    with r have "list_all validItem (result @ [Entry sme])" by simp
    from "7.IH"(1) [OF s refl True c this rest] show ?thesis .
  next
    case False
    note notFile = this
    show ?thesis
    proof (cases "stat_isDirectory st")
      case True
      with n s notFile obtain data where
        d: "scanDir h (withPrefix opts (createUrl entry (opt_prefix opts) True)) child = Inr data"
        and rest: "nextEntry h opts es (result @ data) entries = Inr ys"
        by (auto simp: nextEntry.simps split: sum.splits)
      from "7.IH"(2) [OF s refl notFile True d] have "list_all validItem data" .
      with r have "list_all validItem (result @ data)" by simp
      from "7.IH"(3) [OF s refl notFile True d this rest] show ?thesis .
    next
      case False
      with n s notFile have "nextEntry h opts es result entries = Inr ys"
        by (simp add: nextEntry.simps)
      from "7.IH"(4) [OF s refl notFile False r this] show ?thesis .
    qed
  qed
qed (simp_all add: scanDir.simps)

lemma generate_valid: "generate h dir u = Inr doc \<Longrightarrow> list_all validItem (items doc)"
  by (auto simp: generate_def Sitemap_array split: sum.splits dest: scan_valid(1))

text \<open>
  C10: the priority of an entry is always a number other than \<open>NaN\<close>: it is 0.5 in a new
  entry and stays a number other than \<open>NaN\<close> through every sequence of assignments;
  assigning \<open>NaN\<close> changes nothing; an assignment that returns has either left the
  entry as it was or stored a number that is not \<open>NaN\<close>; and so it is for the entry read
  from a \<open>url\<close> element and for every entry of a generated document.
\<close>

theorem C10_priority_never_nan:
  "validPriority (getPriority (foldl (assignPriority h) newEntry vs))
   \<and> getPriority newEntry = JNum (Fin (1 / 2))
   \<and> setPriority h (JNum NaN) e = Inr e
   \<and> (setPriority h v e = Inr e' \<longrightarrow>
        e' = e \<or> (\<exists>n. e' = e\<lparr>priv_priority := JNum n\<rparr> \<and> \<not> isNaN n))
   \<and> (newEntryFromNode h n = Inr e1 \<longrightarrow> validPriority (getPriority e1))
   \<and> (generate h dir u = Inr doc \<longrightarrow> list_all validItem (items doc))"
proof -
  have init: "validPriority (priv_priority newEntry)"
    by (simp add: newEntry_def DEFAULT_PRIORITY_def)
  have stored: "e' = e \<or> (\<exists>n. e' = e\<lparr>priv_priority := JNum n\<rparr> \<and> \<not> isNaN n)"
    if "setPriority h v e = Inr e'"
  proof (cases v)
    case (JNum n)
    with that show ?thesis by (cases n) (auto simp: setPriority_def split: if_splits)
  qed (use that in \<open>auto simp: setPriority_def Let_def split: if_splits\<close>)
  show ?thesis
    using foldl_assignPriority_valid [OF init, of h vs] stored
      newEntryFromNode_valid [of h n e1] generate_valid [of h dir u doc]
    by (simp add: getPriority_def newEntry_def DEFAULT_PRIORITY_def setPriority_falsy)
qed

theorem C10_priority_never_nan_witness:
  "validPriority (getPriority (foldl (assignPriority utcHost) newEntry
       [JStr ''abc'', JNum NaN, JStr ''0.8'', JNull, JNum PosInf]))
   \<and> setPriority utcHost (JStr ''0.8'') newEntry
       = Inr (newEntry\<lparr>priv_priority := JNum (Fin (4 / 5))\<rparr>)
   \<and> (\<exists>n. newEntry\<lparr>priv_priority := JNum (Fin (4 / 5))\<rparr> = newEntry\<lparr>priv_priority := JNum n\<rparr>
        \<and> \<not> isNaN n)
   \<and> newEntryFromNode utcHost
         (Node ''tag'' (Some ''url'') []
            [Node ''tag'' (Some ''priority'') [] [Node ''text'' None ''0.8'' []]])
       = Inr (newEntry\<lparr>priv_priority := JNum (Fin (4 / 5))\<rparr>)
   \<and> validPriority (getPriority (newEntry\<lparr>priv_priority := JNum (Fin (4 / 5))\<rparr>))
   \<and> generate exampleHost sitePi noOptions
       = Inr \<lparr>items = [pageEntry ''/about/'', Entry (newEntry\<lparr>url := Some ''/about/embedded-pi/foo/''\<rparr>)]\<rparr>
   \<and> list_all validItem
         (items \<lparr>items = [pageEntry ''/about/'', Entry (newEntry\<lparr>url := Some ''/about/embedded-pi/foo/''\<rparr>)]\<rparr>)"
proof -
  have pf: "parseFloat ''0.8'' = Fin (4 / 5)" by code_simp
  have set: "setPriority utcHost (JStr ''0.8'') newEntry
      = Inr (newEntry\<lparr>priv_priority := JNum (Fin (4 / 5))\<rparr>)"
    by (simp add: setPriority_def pf)
  have ex: "\<exists>n. newEntry\<lparr>priv_priority := JNum (Fin (4 / 5))\<rparr> = newEntry\<lparr>priv_priority := JNum n\<rparr>
        \<and> \<not> isNaN n"
    by (rule exI [of _ "Fin (4 / 5)"]) simp
  have node: "newEntryFromNode utcHost
         (Node ''tag'' (Some ''url'') []
            [Node ''tag'' (Some ''priority'') [] [Node ''text'' None ''0.8'' []]])
       = Inr (newEntry\<lparr>priv_priority := JNum (Fin (4 / 5))\<rparr>)"
    by (simp add: newEntryFromNode_def readNode_def readChild_def set)
  have gen: "generate exampleHost sitePi noOptions
       = Inr \<lparr>items = [pageEntry ''/about/'', Entry (newEntry\<lparr>url := Some ''/about/embedded-pi/foo/''\<rparr>)]\<rparr>"
    by code_simp
  note inst = C10_priority_never_nan [of utcHost
      "[JStr ''abc'', JNum NaN, JStr ''0.8'', JNull, JNum PosInf]"
      newEntry "JStr ''0.8''" "newEntry\<lparr>priv_priority := JNum (Fin (4 / 5))\<rparr>"
      "Node ''tag'' (Some ''url'') [] [Node ''tag'' (Some ''priority'') [] [Node ''text'' None ''0.8'' []]]"
      "newEntry\<lparr>priv_priority := JNum (Fin (4 / 5))\<rparr>"]
    and inst2 = C10_priority_never_nan [of exampleHost "[]" newEntry JNull newEntry
      "Node ''tag'' None [] []" newEntry sitePi noOptions
      "\<lparr>items = [pageEntry ''/about/'', Entry (newEntry\<lparr>url := Some ''/about/embedded-pi/foo/''\<rparr>)]\<rparr>"]
  from inst node have v1: "validPriority (getPriority (newEntry\<lparr>priv_priority := JNum (Fin (4 / 5))\<rparr>))"
    by blast
  from inst have v0: "validPriority (getPriority (foldl (assignPriority utcHost) newEntry
       [JStr ''abc'', JNum NaN, JStr ''0.8'', JNull, JNum PosInf]))"
    by blast
  from inst2 gen have v2: "list_all validItem
         (items \<lparr>items = [pageEntry ''/about/'', Entry (newEntry\<lparr>url := Some ''/about/embedded-pi/foo/''\<rparr>)]\<rparr>)"
    by blast
  from v0 set ex node v1 gen v2 show ?thesis by blast
qed

section \<open>Paths of plain segments\<close>

lemma splitOn_not_Nil: "splitOn c s \<noteq> []"
  by (induction s) (auto split: list.splits)

lemma splitOn_no_sep: "c \<notin> set s \<Longrightarrow> splitOn c s = [s]"
  by (induction s) (auto split: list.splits)

lemma splitOn_segment: "c \<notin> set s \<Longrightarrow> splitOn c (s @ c # rest) = s # splitOn c rest"
  by (induction s) (auto split: list.splits)

lemma join_Cons: "xs \<noteq> [] \<Longrightarrow> join sep (x # xs) = x @ sep @ join sep xs"
  by (cases xs) simp_all

lemma splitOn_join:
  "xs \<noteq> [] \<Longrightarrow> \<forall>s \<in> set xs. CHR ''/'' \<notin> set s \<Longrightarrow> splitOn CHR ''/'' (join ''/'' xs) = xs"
proof (induction xs)
  case Nil
  then show ?case by simp
next
  case (Cons x xs)
  show ?case
  proof (cases "xs = []")
    case True
    with Cons.prems show ?thesis by (simp add: splitOn_no_sep)
  next
    case False
    with Cons have "splitOn CHR ''/'' (join ''/'' xs) = xs" by simp
    with False Cons.prems show ?thesis
      using splitOn_segment [of "CHR ''/''" x "join ''/'' xs"] by (simp add: join_Cons)
  qed
qed

text \<open>Segments that are plain or empty: the empty ones are dropped, the others kept.\<close>

lemma normalizeSegments_plain:
  "\<forall>s \<in> set xs. s = [] \<or> cleanSegment s \<Longrightarrow>
   normalizeSegments a res xs = rev res @ filter (\<lambda>s. s \<noteq> []) xs"
  by (induction xs arbitrary: res) (auto simp: cleanSegment_def)

lemma join_append_slash:
  "xs \<noteq> [] \<Longrightarrow> join ''/'' (xs @ ys) = (if ys = [] then join ''/'' xs else join ''/'' xs @ ''/'' @ join ''/'' ys)"
proof (induction xs)
  case Nil
  then show ?case by simp
next
  case (Cons x xs)
  then show ?case by (cases "xs = []") (auto simp: join_Cons)
qed

text \<open>
  The normal form of an absolute path made of plain and empty segments: the plain
  segments, with a final slash when the path has one.
\<close>

lemma normalize_plain:
  assumes "\<forall>s \<in> set xs. s = [] \<or> cleanSegment s" and "xs \<noteq> []"
    and "filter (\<lambda>s. s \<noteq> []) xs \<noteq> []"
  shows "normalize (CHR ''/'' # join ''/'' xs)
    = CHR ''/'' # join ''/'' (filter (\<lambda>s. s \<noteq> []) xs) @ (if last xs = [] then ''/'' else [])"
proof -
  let ?p = "CHR ''/'' # join ''/'' xs"
  have noslash: "\<forall>s \<in> set xs. CHR ''/'' \<notin> set s"
  proof
    fix s
    assume "s \<in> set xs"
    with assms(1) have "s = [] \<or> cleanSegment s" by blast
    then show "CHR ''/'' \<notin> set s" unfolding cleanSegment_def by (elim disjE) simp_all
  qed
  have sj: "splitOn CHR ''/'' (join ''/'' xs) = xs"
    by (rule splitOn_join [OF assms(2) noslash])
  have ns: "normalizeString ?p False = join ''/'' (filter (\<lambda>s. s \<noteq> []) xs)"
    using assms(1) by (simp add: normalizeString_def sj normalizeSegments_plain)
  have lastp: "(last ?p = CHR ''/'') \<longleftrightarrow> last xs = []"
    using assms(1,2)
  proof (induction xs)
    case Nil
    then show ?case by simp
  next
    case (Cons x xs)
    show ?case
    proof (cases "xs = []")
      case True
      with Cons.prems show ?thesis by (cases x rule: rev_cases) (auto simp: cleanSegment_def)
    next
      case False
      with Cons show ?thesis by (auto simp: join_Cons)
    qed
  qed
  have ne: "join ''/'' (filter (\<lambda>s. s \<noteq> []) xs) \<noteq> []"
  proof -
    from assms(3) obtain y ys where f: "filter (\<lambda>s. s \<noteq> []) xs = y # ys" by (cases "filter (\<lambda>s. s \<noteq> []) xs") auto
    then have "y \<in> set (filter (\<lambda>s. s \<noteq> []) xs)" by simp
    then have "y \<noteq> []" by simp
    then show ?thesis unfolding f by (cases ys) auto
  qed
  show ?thesis
    using ne by (simp add: normalize_def Let_def ns lastp del: last.simps)
qed

lemma join_plain_prefix:
  "ys \<noteq> [] \<Longrightarrow> join ''/'' (segs @ ys) = concat (map (\<lambda>s. s @ ''/'') segs) @ join ''/'' ys"
  by (induction segs) (simp_all add: join_Cons)

lemma cleanSegment_ends:
  "cleanSegment s \<Longrightarrow> s \<noteq> [] \<and> hd s \<noteq> CHR ''/'' \<and> last s \<noteq> CHR ''/''"
  unfolding cleanSegment_def using hd_in_set [of s] last_in_set [of s] by metis

text \<open>
  The URL rule on a path of plain segments under the prefix of a directory: the prefix,
  then the path.
\<close>

lemma createUrl_plain:
  assumes segs: "list_all cleanSegment segs" and usegs: "list_all cleanSegment usegs"
    and ne: "usegs \<noteq> []" and t: "t = [] \<or> t = ''/''"
  shows "createUrl (join ''/'' usegs @ t) (Some (dirUrl segs)) fs
      = (let r = dirUrl segs @ join ''/'' usegs @ t
         in if fs \<and> last r \<noteq> CHR ''/'' then r @ ''/'' else r)"
    and "createUrl (CHR ''/'' # join ''/'' usegs @ t) (Some (dirUrl segs)) fs
      = (let r = dirUrl segs @ join ''/'' usegs @ t
         in if fs \<and> last r \<noteq> CHR ''/'' then r @ ''/'' else r)"
proof -
  define tr :: "string list" where "tr = (if t = [] then [] else [[]])"
  define u where "u = join ''/'' usegs @ t"
  from ne obtain u0 us where us: "usegs = u0 # us" by (cases usegs) auto
  with usegs have u0: "cleanSegment u0" by simp
  have lastu: "cleanSegment (last usegs)"
    using usegs ne by (simp add: list_all_iff)
  have jt: "join ''/'' (usegs @ tr) = u"
    using t ne by (auto simp: tr_def u_def join_append_slash)
  have u_ne: "u \<noteq> []" and u_hd: "hd u \<noteq> CHR ''/''"
    using cleanSegment_ends [OF u0] by (cases us; simp add: u_def us)+
  have strip: "(case u of [] \<Rightarrow> u | c # r \<Rightarrow> if c = CHR ''/'' then r else u) = u"
    using u_ne u_hd by (cases u) auto
  have plain: "\<forall>s \<in> set (segs @ [[]] @ usegs @ tr). s = [] \<or> cleanSegment s"
    "\<forall>s \<in> set (segs @ usegs @ tr). s = [] \<or> cleanSegment s"
    using segs usegs by (auto simp: list_all_iff tr_def)
  have keep: "filter (\<lambda>s. s \<noteq> []) (segs @ [[]] @ usegs @ tr) = segs @ usegs"
    "filter (\<lambda>s. s \<noteq> []) (segs @ usegs @ tr) = segs @ usegs"
    using segs usegs by (auto simp: list_all_iff tr_def cleanSegment_def filter_id_conv)
  have lasts: "last (segs @ [[]] @ usegs @ tr) = [] \<longleftrightarrow> t \<noteq> []"
    "last (segs @ usegs @ tr) = [] \<longleftrightarrow> t \<noteq> []"
    using ne cleanSegment_ends [OF lastu] by (auto simp: tr_def)
  have tail: "(if t \<noteq> [] then ''/'' else []) = t" using t by auto
  have whole: "CHR ''/'' # join ''/'' (segs @ usegs) @ t = dirUrl segs @ u"
    using ne by (simp add: join_plain_prefix dirUrl_def u_def)
  have joined: "dirUrl segs @ ''/'' @ u = CHR ''/'' # join ''/'' (segs @ [[]] @ usegs @ tr)"
  proof -
    have "join ''/'' (segs @ ([[]] @ usegs @ tr))
        = concat (map (\<lambda>s. s @ ''/'') segs) @ join ''/'' ([[]] @ usegs @ tr)"
      by (rule join_plain_prefix) simp
    moreover have "join ''/'' ([[]] @ usegs @ tr) = ''/'' @ u"
      using ne jt by (simp add: join_Cons)
    ultimately show ?thesis by (simp add: dirUrl_def)
  qed
  have again: "dirUrl segs @ u = CHR ''/'' # join ''/'' (segs @ usegs @ tr)"
  proof -
    have "join ''/'' (segs @ (usegs @ tr)) = concat (map (\<lambda>s. s @ ''/'') segs) @ join ''/'' (usegs @ tr)"
      using ne by (intro join_plain_prefix) simp
    then show ?thesis by (simp add: dirUrl_def jt)
  qed
  have n1: "normalize (dirUrl segs @ ''/'' @ u) = dirUrl segs @ u"
    unfolding joined
    using normalize_plain [OF plain(1)] ne
    by (simp only: keep lasts tail whole) simp
  have n2: "normalize (dirUrl segs @ u) = dirUrl segs @ u"
    unfolding again
    using normalize_plain [OF plain(2)] ne
    by (simp only: keep lasts tail whole again [symmetric]) simp
  have pj: "pathJoin (dirUrl segs) u = dirUrl segs @ u"
    using u_ne n1 by (simp add: pathJoin_def dirUrl_def)
  have d_ne: "dirUrl segs \<noteq> []" by (simp add: dirUrl_def)
  have e3: "(case dirUrl segs @ u of [] \<Rightarrow> CHR ''/'' # (dirUrl segs @ u)
      | c # r \<Rightarrow> if c \<noteq> CHR ''/'' then CHR ''/'' # (dirUrl segs @ u) else dirUrl segs @ u)
      = dirUrl segs @ u"
    by (simp add: dirUrl_def)
  show "createUrl (join ''/'' usegs @ t) (Some (dirUrl segs)) fs
      = (let r = dirUrl segs @ join ''/'' usegs @ t
         in if fs \<and> last r \<noteq> CHR ''/'' then r @ ''/'' else r)"
    unfolding u_def [symmetric] createUrl_def
    by (simp only: strip option.case d_ne if_False pj n2 e3 Let_def)
  have strip': "(case CHR ''/'' # u of [] \<Rightarrow> CHR ''/'' # u | c # r \<Rightarrow> if c = CHR ''/'' then r else CHR ''/'' # u) = u"
    by simp
  have "createUrl (CHR ''/'' # u) (Some (dirUrl segs)) fs
      = (let r = dirUrl segs @ u in if fs \<and> last r \<noteq> CHR ''/'' then r @ ''/'' else r)"
    unfolding createUrl_def
    by (simp only: strip' option.case d_ne if_False pj n2 e3 Let_def)
  then show "createUrl (CHR ''/'' # join ''/'' usegs @ t) (Some (dirUrl segs)) fs
      = (let r = dirUrl segs @ join ''/'' usegs @ t
         in if fs \<and> last r \<noteq> CHR ''/'' then r @ ''/'' else r)"
    by (simp add: u_def)
qed

lemma createUrl_directory:
  assumes "cleanSegment name" and "list_all cleanSegment segs"
  shows "createUrl name (Some (dirUrl segs)) True = dirUrl (segs @ [name])"
proof -
  from assms(1) have l: "last name \<noteq> CHR ''/''" and ne: "name \<noteq> []"
    using cleanSegment_ends by blast+
  from createUrl_plain(1) [OF assms(2), of "[name]" "[]" True] assms(1)
  have "createUrl name (Some (dirUrl segs)) True
      = (let r = dirUrl segs @ name in if last r \<noteq> CHR ''/'' then r @ ''/'' else r)"
    by simp
  with l ne show ?thesis by (simp add: dirUrl_def Let_def)
qed

lemma createUrl_root_directory:
  assumes "cleanSegment name"
  shows "createUrl name None True = dirUrl [name]"
proof -
  from assms have "name \<noteq> []" "hd name \<noteq> CHR ''/''" "last name \<noteq> CHR ''/''"
    using cleanSegment_ends by blast+
  then show ?thesis by (cases name) (auto simp: createUrl_def dirUrl_def Let_def)
qed

lemma createUrl_rooted: "startsWith ''/'' (createUrl u p fs)"
  by (auto simp: createUrl_def startsWith_def Let_def split: list.splits option.splits)

lemma createUrl_root_plain:
  assumes usegs: "list_all cleanSegment usegs" and ne: "usegs \<noteq> []"
  shows "createUrl (join ''/'' usegs @ t) None False = dirUrl [] @ join ''/'' usegs @ t"
    and "createUrl (CHR ''/'' # join ''/'' usegs @ t) None False = dirUrl [] @ join ''/'' usegs @ t"
proof -
  from ne obtain u0 us where us: "usegs = u0 # us" by (cases usegs) auto
  with usegs have "cleanSegment u0" by simp
  from cleanSegment_ends [OF this] have "join ''/'' usegs @ t \<noteq> [] \<and> hd (join ''/'' usegs @ t) \<noteq> CHR ''/''"
    by (cases us; simp add: us)
  then obtain c r where cr: "join ''/'' usegs @ t = c # r" and c: "c \<noteq> CHR ''/''"
    by (cases "join ''/'' usegs @ t") auto
  show "createUrl (join ''/'' usegs @ t) None False = dirUrl [] @ join ''/'' usegs @ t"
    unfolding cr using c by (simp add: createUrl_def dirUrl_def)
  show "createUrl (CHR ''/'' # join ''/'' usegs @ t) None False = dirUrl [] @ join ''/'' usegs @ t"
    unfolding cr using c by (simp add: createUrl_def dirUrl_def)
qed

lemma list_of_two: "length ys = 2 \<Longrightarrow> ys = [ys ! 0, ys ! Suc 0]"
  by (auto simp: numeral_2_eq_2 length_Suc_conv)

text \<open>
  C5, as the code has it: when \<open>includeSitemap\<close> is on and the listing of a directory has \<open>sitemap.xml\<close>,
  the file survives the filter and the scan of the directory is the reading of that
  file and nothing else: any other listing with the same file gives the same result.
  When the file is read and parsed into a document whose items all have a URL, the scan
  gives as many items as the document has, in their order: an entry whose URL starts
  with a scheme is unchanged, and the URL of any other entry is rebuilt by the
  generator's URL rule under the directory's prefix, the rest of the entry unchanged.
  When some item has no URL the scan fails with \<open>TypeError\<close>. The rebuilt URL
  always starts with a slash. It is the prefix followed by the URL, less its leading
  slash, when the directory is the root or is reached through plain names and the URL
  is made of plain segments, with or without a final slash; the prefix of such a
  directory is the slash-separated list of the names.
\<close>

theorem C5_embedded_sitemap:
  assumes "opt_includeSitemap opts" and "''sitemap.xml'' \<in> fst ` set es"
  shows "''sitemap.xml'' \<in> set (filterEntries (map fst es) (opt_ext opts) (opt_includeSitemap opts))
    \<and> scanDir h opts (Dir mt (Some es)) = getEmbeddedSitemap h (map_of es ''sitemap.xml'') opts
    \<and> (''sitemap.xml'' \<in> fst ` set es' \<and> map_of es' ''sitemap.xml'' = map_of es ''sitemap.xml'' \<longrightarrow>
          scanDir h opts (Dir mt' (Some es')) = scanDir h opts (Dir mt (Some es)))
    \<and> (map_of es ''sitemap.xml'' = Some (File fmt (Some contents))
         \<and> Sitemap h (Other (JStr contents)) = Inr doc \<longrightarrow>
          (list_all hasUrl (items doc) \<longrightarrow>
             (\<exists>ys. scanDir h opts (Dir mt (Some es)) = Inr ys
                \<and> length ys = length (items doc)
                \<and> (\<forall>i < length ys. \<forall>e u. items doc ! i = Entry e \<and> url e = Some u \<longrightarrow>
                      ys ! i = (if hasScheme u then Entry e
                                else Entry (e\<lparr>url := Some (createUrl u (opt_prefix opts) False)\<rparr>)))))
          \<and> (\<not> list_all hasUrl (items doc) \<longrightarrow>
                scanDir h opts (Dir mt (Some es)) = Inl TypeError))
    \<and> startsWith ''/'' (createUrl u p False)
    \<and> (list_all cleanSegment segs \<and> list_all cleanSegment usegs \<and> usegs \<noteq> []
         \<and> (t = [] \<or> t = ''/'') \<longrightarrow>
          createUrl (join ''/'' usegs @ t) (Some (dirUrl segs)) False
            = dirUrl segs @ join ''/'' usegs @ t
          \<and> createUrl (CHR ''/'' # join ''/'' usegs @ t) (Some (dirUrl segs)) False
            = dirUrl segs @ join ''/'' usegs @ t
          \<and> createUrl (join ''/'' usegs @ t) None False = dirUrl [] @ join ''/'' usegs @ t
          \<and> createUrl (CHR ''/'' # join ''/'' usegs @ t) None False
            = dirUrl [] @ join ''/'' usegs @ t)
    \<and> (cleanSegment name \<and> list_all cleanSegment segs \<longrightarrow>
          createUrl name None True = dirUrl [name]
          \<and> createUrl name (Some (dirUrl segs)) True = dirUrl (segs @ [name]))"
proof (intro conjI impI)
  show "''sitemap.xml'' \<in> set (filterEntries (map fst es) (opt_ext opts) (opt_includeSitemap opts))"
    using assms by (simp add: filterEntries_keeps_sitemap)
  show scan: "scanDir h opts (Dir mt (Some es)) = getEmbeddedSitemap h (map_of es ''sitemap.xml'') opts"
    using assms by (rule scanDir_embedded)
  show "scanDir h opts (Dir mt' (Some es')) = scanDir h opts (Dir mt (Some es))"
    if "''sitemap.xml'' \<in> fst ` set es' \<and> map_of es' ''sitemap.xml'' = map_of es ''sitemap.xml''"
    using that scan scanDir_embedded [OF assms(1), of es' h mt'] by simp
  show "\<exists>ys. scanDir h opts (Dir mt (Some es)) = Inr ys
        \<and> length ys = length (items doc)
        \<and> (\<forall>i < length ys. \<forall>e u. items doc ! i = Entry e \<and> url e = Some u \<longrightarrow>
              ys ! i = (if hasScheme u then Entry e
                        else Entry (e\<lparr>url := Some (createUrl u (opt_prefix opts) False)\<rparr>)))"
    if "map_of es ''sitemap.xml'' = Some (File fmt (Some contents))
        \<and> Sitemap h (Other (JStr contents)) = Inr doc"
      and "list_all hasUrl (items doc)"
    using that(1) scan rewriteItems_each [OF that(2), of opts]
    by (simp add: getEmbeddedSitemap_file)
  show "scanDir h opts (Dir mt (Some es)) = Inl TypeError"
    if "map_of es ''sitemap.xml'' = Some (File fmt (Some contents))
        \<and> Sitemap h (Other (JStr contents)) = Inr doc"
      and "\<not> list_all hasUrl (items doc)"
    using that scan by (simp add: getEmbeddedSitemap_file rewriteItems_no_url)
  show "startsWith ''/'' (createUrl u p False)"
    by (rule createUrl_rooted)
  show "createUrl (join ''/'' usegs @ t) (Some (dirUrl segs)) False
      = dirUrl segs @ join ''/'' usegs @ t"
    if "list_all cleanSegment segs \<and> list_all cleanSegment usegs \<and> usegs \<noteq> []
        \<and> (t = [] \<or> t = ''/'')"
    using that createUrl_plain(1) [of segs usegs t False] by (simp add: Let_def)
  show "createUrl (CHR ''/'' # join ''/'' usegs @ t) (Some (dirUrl segs)) False
      = dirUrl segs @ join ''/'' usegs @ t"
    if "list_all cleanSegment segs \<and> list_all cleanSegment usegs \<and> usegs \<noteq> []
        \<and> (t = [] \<or> t = ''/'')"
    using that createUrl_plain(2) [of segs usegs t False] by (simp add: Let_def)
  show "createUrl (join ''/'' usegs @ t) None False = dirUrl [] @ join ''/'' usegs @ t"
    if "list_all cleanSegment segs \<and> list_all cleanSegment usegs \<and> usegs \<noteq> []
        \<and> (t = [] \<or> t = ''/'')"
    using that createUrl_root_plain(1) [of usegs t] by simp
  show "createUrl (CHR ''/'' # join ''/'' usegs @ t) None False = dirUrl [] @ join ''/'' usegs @ t"
    if "list_all cleanSegment segs \<and> list_all cleanSegment usegs \<and> usegs \<noteq> []
        \<and> (t = [] \<or> t = ''/'')"
    using that createUrl_root_plain(2) [of usegs t] by simp
  show "createUrl name None True = dirUrl [name]"
    if "cleanSegment name \<and> list_all cleanSegment segs"
    using that by (simp add: createUrl_root_directory)
  show "createUrl name (Some (dirUrl segs)) True = dirUrl (segs @ [name])"
    if "cleanSegment name \<and> list_all cleanSegment segs"
    using that by (simp add: createUrl_directory)
qed


theorem C5_embedded_sitemap_witness:
  "opt_includeSitemap aboutOptions
   \<and> ''sitemap.xml'' \<in> fst ` set aboutListing
   \<and> map_of aboutListing ''sitemap.xml'' = Some (File (DateMs 0) (Some embeddedDocument))
   \<and> Sitemap exampleHost (Other (JStr embeddedDocument)) = Inr \<lparr>items = embeddedItems\<rparr>
   \<and> list_all hasUrl embeddedItems
   \<and> \<not> hasScheme ''embedded/'' \<and> hasScheme ''http://example.com/''
   \<and> scanDir exampleHost aboutOptions (Dir (DateMs 0) (Some aboutListing))
       = Inr [Entry (newEntry\<lparr>url := Some ''/about/embedded/'', changeFrequency := JStr ''daily''\<rparr>),
              Entry (newEntry\<lparr>url := Some ''http://example.com/''\<rparr>)]
   \<and> scanDir exampleHost aboutOptions
         (Dir (DateMs 1) (Some [(''sitemap.xml'', File (DateMs 0) (Some embeddedDocument))]))
       = scanDir exampleHost aboutOptions (Dir (DateMs 0) (Some aboutListing))
   \<and> startsWith ''/'' (createUrl ''../x'' (Some ''/about/'') False)
   \<and> list_all cleanSegment [''about''] \<and> list_all cleanSegment [''embedded'']
   \<and> cleanSegment ''about''
   \<and> createUrl ''/embedded/'' (Some ''/about/'') False = ''/about/embedded/''
   \<and> createUrl ''embedded/'' None False = ''/embedded/''
   \<and> createUrl ''about'' None True = ''/about/''
   \<and> createUrl ''about'' (Some ''/about/'') True = ''/about/about/''
   \<and> map_of [(''sitemap.xml'', File (DateMs 0) (Some bareDocument))] ''sitemap.xml''
       = Some (File (DateMs 0) (Some bareDocument))
   \<and> Sitemap parentHost (Other (JStr bareDocument))
       = Inr \<lparr>items = [Entry (newEntry\<lparr>changeFrequency := JStr ''daily''\<rparr>)]\<rparr>
   \<and> \<not> list_all hasUrl [Entry (newEntry\<lparr>changeFrequency := JStr ''daily''\<rparr>)]
   \<and> scanDir parentHost aboutOptions
         (Dir (DateMs 0) (Some [(''sitemap.xml'', File (DateMs 0) (Some bareDocument))]))
       = Inl TypeError"
proof -
  let ?daily = "newEntry\<lparr>url := Some ''embedded/'', changeFrequency := JStr ''daily''\<rparr>"
  let ?abs = "newEntry\<lparr>url := Some ''http://example.com/''\<rparr>"
  let ?bare = "newEntry\<lparr>changeFrequency := JStr ''daily''\<rparr>"
  let ?alone = "[(''sitemap.xml'', File (DateMs 0) (Some embeddedDocument))]"
  let ?bareListing = "[(''sitemap.xml'', File (DateMs 0) (Some bareDocument))]"
  have on: "opt_includeSitemap aboutOptions" by code_simp
  have pre: "opt_prefix aboutOptions = Some ''/about/''" by code_simp
  have listed: "''sitemap.xml'' \<in> fst ` set aboutListing" by (simp add: aboutListing_def)
  have fileAt: "map_of aboutListing ''sitemap.xml'' = Some (File (DateMs 0) (Some embeddedDocument))"
    by (simp add: aboutListing_def)
  have doc: "Sitemap exampleHost (Other (JStr embeddedDocument)) = Inr \<lparr>items = embeddedItems\<rparr>"
    by code_simp
  have allUrl: "list_all hasUrl embeddedItems" by (simp add: embeddedItems_def)
  have rel: "\<not> hasScheme ''embedded/''"
    unfolding reProto_iff_hasScheme [symmetric] by code_simp
  have scheme: "hasScheme ''http://example.com/''"
    unfolding reProto_iff_hasScheme [symmetric] by code_simp
  have clean: "list_all cleanSegment [''about'']"
    "list_all cleanSegment [''embedded'']" "cleanSegment ''about''"
    by (simp_all add: cleanSegment_def)
  note inst = C5_embedded_sitemap [OF on listed, where h = exampleHost and mt = "DateMs 0"
      and es' = "?alone" and mt' = "DateMs 1" and fmt = "DateMs 0"
      and contents = embeddedDocument and doc = "\<lparr>items = embeddedItems\<rparr>"
      and u = "''../x''" and p = "Some ''/about/''" and segs = "[''about'']"
      and usegs = "[''embedded'']" and t = "''/''" and name = "''about''"]
  let ?doc = "\<lparr>items = embeddedItems\<rparr>"
  have allUrl': "list_all hasUrl (items ?doc)" using allUrl by simp
  from inst fileAt doc allUrl'
  have "\<exists>ys. scanDir exampleHost aboutOptions (Dir (DateMs 0) (Some aboutListing)) = Inr ys
      \<and> length ys = length (items ?doc)
      \<and> (\<forall>i < length ys. \<forall>e u. items ?doc ! i = Entry e \<and> url e = Some u \<longrightarrow>
            ys ! i = (if hasScheme u then Entry e
                      else Entry (e\<lparr>url := Some (createUrl u (opt_prefix aboutOptions) False)\<rparr>)))"
    by blast
  then obtain ys
    where s: "scanDir exampleHost aboutOptions (Dir (DateMs 0) (Some aboutListing)) = Inr ys"
      and len: "length ys = length embeddedItems"
      and all: "\<forall>i < length ys. \<forall>e u. embeddedItems ! i = Entry e \<and> url e = Some u \<longrightarrow>
            ys ! i = (if hasScheme u then Entry e
                      else Entry (e\<lparr>url := Some (createUrl u (opt_prefix aboutOptions) False)\<rparr>))"
    by auto
  have each: "ys ! i = (if hasScheme u then Entry e
        else Entry (e\<lparr>url := Some (createUrl u (opt_prefix aboutOptions) False)\<rparr>))"
    if "i < length ys" and "embeddedItems ! i = Entry e" and "url e = Some u" for i e u
    using all that by blast
  have two: "length ys = 2" using len by (simp add: embeddedItems_def)
  have built: "createUrl ''embedded/'' (Some ''/about/'') False = ''/about/embedded/''"
    using inst clean by (simp add: dirUrl_def)
  have "ys ! 0 = Entry (?daily\<lparr>url := Some (createUrl ''embedded/'' (Some ''/about/'') False)\<rparr>)"
    using each [of 0 ?daily "''embedded/''"] two rel pre by (simp add: embeddedItems_def)
  then have y0: "ys ! 0 = Entry (newEntry\<lparr>url := Some ''/about/embedded/'',
      changeFrequency := JStr ''daily''\<rparr>)"
    by (simp add: built)
  have y1: "ys ! Suc 0 = Entry ?abs"
    using each [of "Suc 0" ?abs "''http://example.com/''"] two scheme
    by (simp add: embeddedItems_def)
  have scan: "scanDir exampleHost aboutOptions (Dir (DateMs 0) (Some aboutListing))
      = Inr [Entry (newEntry\<lparr>url := Some ''/about/embedded/'', changeFrequency := JStr ''daily''\<rparr>),
             Entry ?abs]"
    using s list_of_two [OF two] y0 y1 by simp
  have same: "scanDir exampleHost aboutOptions (Dir (DateMs 1) (Some ?alone))
      = scanDir exampleHost aboutOptions (Dir (DateMs 0) (Some aboutListing))"
    using inst fileAt by simp
  have rooted: "startsWith ''/'' (createUrl ''../x'' (Some ''/about/'') False)"
    using inst by blast
  have under: "createUrl ''/embedded/'' (Some ''/about/'') False = ''/about/embedded/''"
    using inst clean by (simp add: dirUrl_def)
  have root: "createUrl ''embedded/'' None False = ''/embedded/''"
    using inst clean by (simp add: dirUrl_def)
  have dir1: "createUrl ''about'' None True = ''/about/''"
    using inst clean by (simp add: dirUrl_def)
  have dir2: "createUrl ''about'' (Some ''/about/'') True = ''/about/about/''"
    using inst clean by (simp add: dirUrl_def)
  have bareListed: "''sitemap.xml'' \<in> fst ` set ?bareListing" by simp
  have bareAt: "map_of ?bareListing ''sitemap.xml'' = Some (File (DateMs 0) (Some bareDocument))"
    by simp
  have bareDoc: "Sitemap parentHost (Other (JStr bareDocument)) = Inr \<lparr>items = [Entry ?bare]\<rparr>"
    by code_simp
  have noUrl: "\<not> list_all hasUrl [Entry ?bare]" by (simp add: newEntry_def)
  have noUrl': "\<not> list_all hasUrl (items \<lparr>items = [Entry ?bare]\<rparr>)" using noUrl by simp
  have fails: "scanDir parentHost aboutOptions (Dir (DateMs 0) (Some ?bareListing)) = Inl TypeError"
    using C5_embedded_sitemap [OF on bareListed, where h = parentHost and mt = "DateMs 0"
        and fmt = "DateMs 0" and contents = bareDocument and doc = "\<lparr>items = [Entry ?bare]\<rparr>"]
      bareAt bareDoc noUrl'
    by blast
  show ?thesis
    using on listed fileAt doc allUrl rel scheme scan same rooted clean under root dir1 dir2
      bareAt bareDoc noUrl fails
    by blast
qed

text \<open>
  C5, as the claim states it, fails: the claim says that every URL without a scheme is
  prefixed with the directory's prefix, and that the items of the document are the
  whole contribution. In the directory of prefix \<open>/about/\<close>, the URL \<open>../x\<close> of an
  embedded document has no scheme and becomes \<open>/x\<close>, which does not start with
  \<open>/about/\<close>; and a document whose entry has no \<open>loc\<close> makes the scan fail instead
  of contributing that entry.
\<close>

theorem C5_parent_path_counterexample:
  "opt_includeSitemap aboutOptions
   \<and> opt_prefix aboutOptions = Some ''/about/''
   \<and> Sitemap parentHost (Other (JStr parentDocument))
       = Inr \<lparr>items = [Entry (newEntry\<lparr>url := Some ''../x''\<rparr>)]\<rparr>
   \<and> \<not> hasScheme ''../x''
   \<and> scanDir parentHost aboutOptions
         (Dir (DateMs 0) (Some [(''sitemap.xml'', File (DateMs 0) (Some parentDocument))]))
       = Inr [Entry (newEntry\<lparr>url := Some ''/x''\<rparr>)]
   \<and> \<not> startsWith ''/about/'' ''/x''
   \<and> Sitemap parentHost (Other (JStr bareDocument))
       = Inr \<lparr>items = [Entry (newEntry\<lparr>changeFrequency := JStr ''daily''\<rparr>)]\<rparr>
   \<and> scanDir parentHost aboutOptions
         (Dir (DateMs 0) (Some [(''sitemap.xml'', File (DateMs 0) (Some bareDocument))]))
       = Inl TypeError"
  unfolding reProto_iff_hasScheme [symmetric] by code_simp

end
